theory Spec2Isabelle
  imports Main "HOL-Library.Multiset"
begin

section \<open>The chat session engine of use-persistent-chats.ts\<close>

text \<open>
  The hook \<open>usePersistentChats\<close> keeps its stores in React state and refs. The model is a
  record of those stores; each handler is a function from the state to the next state. The
  JavaScript runtime's table of pending \<open>setTimeout\<close> callbacks is part of the state, so
  that a timer that was registered and never cancelled is still there to fire.

  Conventions of the model:
  \<^item> numbers (ids, counters, milliseconds, seconds) are \<open>int\<close>; the finite range of a
    JavaScript \<open>Date\<close> is modelled where the code turns a computed time into a string
    (\<open>sendMessage\<close>), since \<open>toISOString\<close> throws outside it;
  \<^item> the readings of the clock (\<open>Date.now()\<close>, \<open>new Date()\<close>) in one synchronous run of
    a handler are the parameter \<open>now\<close>, except in \<open>sendMessage\<close>, whose readings are
    kept apart (\<open>sendClock\<close>): the placeholder's id, creation time and expiry come from
    three of them;
  \<^item> an awaited network call is a parameter holding its outcome (\<open>None\<close> when it throws),
    and a handler is run to its end without another handler in between.
\<close>

subsection \<open>Timestamps as JavaScript sees them\<close>

text \<open>
  A timestamp field holds \<open>undefined\<close> (or the empty string), \<open>null\<close>, a non-empty string
  that \<open>Date\<close> cannot parse, or a string that parses to a number of milliseconds.
\<close>

datatype tstamp = Undef | Null | Unparsable | Iso int

fun truthy :: "tstamp \<Rightarrow> bool" where
  "truthy Undef = False"
| "truthy Null = False"
| "truthy Unparsable = True"
| "truthy (Iso n) = True"

text \<open>\<open>new Date(v).getTime()\<close>; \<open>None\<close> is NaN.\<close>

fun getTime :: "tstamp \<Rightarrow> int option" where
  "getTime Undef = None"
| "getTime Null = Some 0"
| "getTime Unparsable = None"
| "getTime (Iso n) = Some n"

definition toMs :: "tstamp \<Rightarrow> int" where
  "toMs v = (case getTime v of None \<Rightarrow> 0 | Some t \<Rightarrow> t)"

text \<open>The operator \<open>a || b\<close> on timestamp values.\<close>

definition js_or :: "tstamp \<Rightarrow> tstamp \<Rightarrow> tstamp" where
  "js_or a b = (if truthy a then a else b)"

subsection \<open>Data\<close>

record message =
  msg_id :: int
  chatId :: int
  senderId :: int
  receiverId :: int
  content :: string
  messageType :: string
  fileName :: "string option"
  fileSize :: "int option"
  createdAt :: tstamp
  expiresAt :: tstamp
  expires_at :: tstamp
  destructTimer :: "int option"

record user =
  user_id :: int
  username :: string
  isOnline :: bool

record preview =
  lm_id :: int
  lm_content :: string
  lm_createdAt :: tstamp

record contact =
  chat_id :: int
  participant1Id :: int
  participant2Id :: int
  unreadCount1 :: "int option"
  unreadCount2 :: "int option"
  otherUser :: user
  lastMessage :: "preview option"
  lastMessageTimestamp :: tstamp
  chat_createdAt :: tstamp
  unreadCount :: "int option"

text \<open>The outbound socket message \<open>{type: "message", ...}\<close>.\<close>

record payload =
  p_chatId :: int
  p_senderId :: int
  p_receiverId :: int
  p_content :: string
  p_messageType :: string
  p_destructTimer :: int
  p_fileName :: "string option"
  p_fileSize :: "int option"

text \<open>What a pending \<open>setTimeout\<close> will do: the closures of the two timer callbacks.\<close>

datatype callback = DeleteMessage int int | ClearTyping int

record timeout =
  delay :: int
  cb :: callback

record state =
  userId :: "int option"
  socketSend :: bool
  persistentContacts :: "contact list"
  activeMessages :: "int \<rightharpoonup> message list"
  selectedChat :: "contact option"
  isLoading :: bool
  firstLoadDone :: bool
  unreadCounts :: "int \<rightharpoonup> int"
  typingByChat :: "int \<rightharpoonup> bool"
  typingTimeouts :: "int \<rightharpoonup> nat"
  deletionTimers :: "int \<rightharpoonup> nat"
  cutoffs :: "int \<Rightarrow> tstamp"
  presence :: "int \<rightharpoonup> bool"
  pending :: "(nat \<times> timeout) list"
  nextHandle :: nat
  emitted :: "payload list"

text \<open>
  \<open>cutoffs\<close> is the object \<open>cutoffsRef.current\<close>: reading a key that was never written
  gives \<open>undefined\<close>. \<open>pending\<close> is the runtime's table of live timeouts by handle,
  \<open>nextHandle\<close> the next handle \<open>setTimeout\<close> returns (handles are positive), and
  \<open>emitted\<close> the calls of \<open>socket.send\<close> with a message payload, oldest first.
\<close>

definition truthy_id :: "int option \<Rightarrow> bool" where
  "truthy_id u = (case u of None \<Rightarrow> False | Some n \<Rightarrow> n \<noteq> 0)"

text \<open>\<open>activeMessages.get(chatId) || []\<close> and \<open>unreadCounts.get(chatId) || 0\<close>.\<close>

definition messagesOf :: "state \<Rightarrow> int \<Rightarrow> message list" where
  "messagesOf s c = (case activeMessages s c of None \<Rightarrow> [] | Some ms \<Rightarrow> ms)"

definition unreadOf :: "state \<Rightarrow> int \<Rightarrow> int" where
  "unreadOf s c = (case unreadCounts s c of None \<Rightarrow> 0 | Some n \<Rightarrow> n)"

subsection \<open>The runtime's timers\<close>

definition setTimeout :: "callback \<Rightarrow> int \<Rightarrow> state \<Rightarrow> nat \<times> state" where
  "setTimeout f ms s =
     (nextHandle s,
      s\<lparr>pending := pending s @ [(nextHandle s, \<lparr>delay = ms, cb = f\<rparr>)],
        nextHandle := Suc (nextHandle s)\<rparr>)"

definition clearTimeout :: "nat \<Rightarrow> state \<Rightarrow> state" where
  "clearTimeout h s = s\<lparr>pending := filter (\<lambda>p. fst p \<noteq> h) (pending s)\<rparr>"

subsection \<open>Expiry timers\<close>

definition clearTimer :: "int \<Rightarrow> state \<Rightarrow> state" where
  "clearTimer messageId s =
     (let s1 = (case deletionTimers s messageId of
                  None \<Rightarrow> s
                | Some t \<Rightarrow> if t \<noteq> 0 then clearTimeout t s else s)
      in s1\<lparr>deletionTimers := (deletionTimers s1)(messageId := None)\<rparr>)"

definition scheduleMessageDeletion :: "int \<Rightarrow> message \<Rightarrow> state \<Rightarrow> state" where
  "scheduleMessageDeletion now m s =
     (let expMs = toMs (js_or (expiresAt m) (expires_at m)) in
      if expMs = 0 then s
      else
        let ms = max (expMs - now) 200;
            s1 = clearTimer (msg_id m) s;
            (t, s2) = setTimeout (DeleteMessage (chatId m) (msg_id m)) ms s1
        in s2\<lparr>deletionTimers := (deletionTimers s2)(msg_id m \<mapsto> t)\<rparr>)"

subsection \<open>Typing state\<close>

definition clearTypingTimer :: "int \<Rightarrow> state \<Rightarrow> state" where
  "clearTypingTimer c s =
     (let s1 = (case typingTimeouts s c of
                  None \<Rightarrow> s
                | Some t \<Rightarrow> if t \<noteq> 0 then clearTimeout t s else s)
      in s1\<lparr>typingTimeouts := (typingTimeouts s1)(c := None)\<rparr>)"

definition setTypingState :: "int \<Rightarrow> bool \<Rightarrow> state \<Rightarrow> state" where
  "setTypingState c isTyping s =
     (if isTyping then s\<lparr>typingByChat := (typingByChat s)(c \<mapsto> True)\<rparr>
      else s\<lparr>typingByChat := (typingByChat s)(c := None)\<rparr>)"

subsection \<open>A timeout fires\<close>

text \<open>
  The bodies of the two callbacks, then the runtime's step: a live timeout leaves the
  table and its callback runs. A handle that is not live does nothing.
\<close>

fun runCallback :: "callback \<Rightarrow> state \<Rightarrow> state" where
  "runCallback (DeleteMessage c i) s =
     clearTimer i
       (s\<lparr>activeMessages :=
            (activeMessages s)(c \<mapsto> filter (\<lambda>m. msg_id m \<noteq> i) (messagesOf s c))\<rparr>)"
| "runCallback (ClearTyping c) s = clearTypingTimer c (setTypingState c False s)"

definition fireTimeout :: "nat \<Rightarrow> state \<Rightarrow> state" where
  "fireTimeout h s =
     (case map_of (pending s) h of
        None \<Rightarrow> s
      | Some t \<Rightarrow> runCallback (cb t) (clearTimeout h s))"

subsection \<open>Presence\<close>

definition setOnline :: "bool \<Rightarrow> contact \<Rightarrow> contact" where
  "setOnline b c = c\<lparr>otherUser := (otherUser c)\<lparr>isOnline := b\<rparr>\<rparr>"

definition applyPresence :: "int \<Rightarrow> bool \<Rightarrow> state \<Rightarrow> state" where
  "applyPresence uid online s =
     (if uid = 0 then s
      else s\<lparr>presence := (presence s)(uid \<mapsto> online),
             persistentContacts :=
               map (\<lambda>c. if user_id (otherUser c) \<noteq> uid then c else setOnline online c)
                   (persistentContacts s),
             selectedChat :=
               (case selectedChat s of
                  None \<Rightarrow> None
                | Some p \<Rightarrow> if user_id (otherUser p) \<noteq> uid then Some p
                            else Some (setOnline online p))\<rparr>)"

definition setAllOffline :: "state \<Rightarrow> state" where
  "setAllOffline s =
     s\<lparr>presence := Map.empty,
       persistentContacts := map (setOnline False) (persistentContacts s),
       selectedChat := map_option (setOnline False) (selectedChat s)\<rparr>"

text \<open>The effect on \<open>socket.isConnected\<close>.\<close>

definition onConnectionChange :: "bool \<Rightarrow> state \<Rightarrow> state" where
  "onConnectionChange isConnected s = (if \<not> isConnected then setAllOffline s else s)"

text \<open>
  The presence shown for a user id, as \<open>fetchContacts\<close> reads it:
  \<open>oid ? Boolean(presenceRef.current.get(oid)) : false\<close>.
\<close>

definition presenceFor :: "state \<Rightarrow> int \<Rightarrow> bool" where
  "presenceFor s oid =
     (if oid \<noteq> 0 then (case presence s oid of None \<Rightarrow> False | Some b \<Rightarrow> b) else False)"

subsection \<open>The chat list\<close>

text \<open>\<open>prev.findIndex(c => c.id === chatId)\<close>; \<open>None\<close> is \<open>-1\<close>.\<close>

fun findIndex :: "int \<Rightarrow> contact list \<Rightarrow> nat option" where
  "findIndex cid [] = None"
| "findIndex cid (c # cs) =
     (if chat_id c = cid then Some 0 else map_option Suc (findIndex cid cs))"

text \<open>\<open>prev.filter((_, i) => i !== idx)\<close>.\<close>

definition dropIndex :: "nat \<Rightarrow> 'a list \<Rightarrow> 'a list" where
  "dropIndex i xs = take i xs @ drop (Suc i) xs"

definition bumpList :: "int \<Rightarrow> int \<Rightarrow> preview \<Rightarrow> contact list \<Rightarrow> contact list" where
  "bumpList now cid lm prev =
     (case findIndex cid prev of
        None \<Rightarrow> prev
      | Some idx \<Rightarrow>
          (prev ! idx)\<lparr>lastMessage := Some lm,
                       lastMessageTimestamp := js_or (lm_createdAt lm) (Iso now)\<rparr>
          # dropIndex idx prev)"

definition bumpChatToTopAndUpdateLast :: "int \<Rightarrow> int \<Rightarrow> preview \<Rightarrow> state \<Rightarrow> state" where
  "bumpChatToTopAndUpdateLast now cid lm s =
     s\<lparr>persistentContacts := bumpList now cid lm (persistentContacts s)\<rparr>"

subsection \<open>Loading the chat list\<close>

definition orZero :: "int option \<Rightarrow> int" where
  "orZero x = (case x of None \<Rightarrow> 0 | Some n \<Rightarrow> n)"

text \<open>The unread counter of the local user's participant slot.\<close>

definition slotUnread :: "int \<Rightarrow> contact \<Rightarrow> int" where
  "slotUnread uid c =
     (if uid = participant1Id c then orZero (unreadCount1 c)
      else if uid = participant2Id c then orZero (unreadCount2 c)
      else 0)"

text \<open>
  The \<open>forEach\<close> over the response: it writes \<open>c.unreadCount\<close> and fills the map
  \<open>serverUnread\<close> with the positive counters; a later entry of the same chat id
  overwrites an earlier one.
\<close>

definition stampUnread :: "int \<Rightarrow> contact \<Rightarrow> contact" where
  "stampUnread uid c = c\<lparr>unreadCount := Some (slotUnread uid c)\<rparr>"

fun serverUnread :: "int \<Rightarrow> contact list \<Rightarrow> (int \<rightharpoonup> int) \<Rightarrow> (int \<rightharpoonup> int)" where
  "serverUnread uid [] m = m"
| "serverUnread uid (c # cs) m =
     serverUnread uid cs
       (if slotUnread uid c > 0 then m(chat_id c \<mapsto> slotUnread uid c) else m)"

text \<open>
  The merge loop runs once for each key of \<open>serverUnread\<close> and writes only that key,
  so it is the pointwise function below.
\<close>

definition mergeUnread :: "(int \<rightharpoonup> int) \<Rightarrow> (int \<rightharpoonup> int) \<Rightarrow> (int \<rightharpoonup> int)" where
  "mergeUnread prev su =
     (\<lambda>k. case su k of
             None \<Rightarrow> prev k
           | Some cnt \<Rightarrow> Some (max (orZero (prev k)) cnt))"

text \<open>The time the comparator reads from a chat, and the comparator (\<open>None\<close> is NaN).\<close>

definition sortTime :: "contact \<Rightarrow> tstamp" where
  "sortTime a =
     js_or (js_or (case lastMessage a of None \<Rightarrow> Undef | Some lm \<Rightarrow> lm_createdAt lm)
                  (lastMessageTimestamp a))
           (chat_createdAt a)"

definition compareContacts :: "contact \<Rightarrow> contact \<Rightarrow> int option" where
  "compareContacts a b =
     (case (getTime (sortTime b), getTime (sortTime a)) of
        (Some tb, Some ta) \<Rightarrow> Some (tb - ta)
      | _ \<Rightarrow> None)"

text \<open>
  \<open>Array.prototype.sort\<close> is a stable sort that treats a NaN from the comparator as 0.
  It is modelled as the stable insertion sort: an element moves behind a later one only
  when the comparator is positive. For a comparator that is a consistent order every
  stable sort returns this list.
\<close>

fun insertBy :: "('a \<Rightarrow> 'a \<Rightarrow> int option) \<Rightarrow> 'a \<Rightarrow> 'a list \<Rightarrow> 'a list" where
  "insertBy cmp x [] = [x]"
| "insertBy cmp x (y # ys) =
     (if (case cmp x y of None \<Rightarrow> False | Some v \<Rightarrow> v > 0) then y # insertBy cmp x ys
      else x # y # ys)"

definition sortBy :: "('a \<Rightarrow> 'a \<Rightarrow> int option) \<Rightarrow> 'a list \<Rightarrow> 'a list" where
  "sortBy cmp xs = foldr (insertBy cmp) xs []"

definition fetchContacts :: "bool \<Rightarrow> contact list option \<Rightarrow> state \<Rightarrow> state" where
  "fetchContacts showSpinner response s =
     (case userId s of
        None \<Rightarrow> s
      | Some uid \<Rightarrow>
          if uid = 0 then s
          else
            let s0 = (if showSpinner then s\<lparr>isLoading := True\<rparr> else s);
                s1 = (case response of
                        None \<Rightarrow> if showSpinner then s0\<lparr>persistentContacts := []\<rparr> else s0
                      | Some contacts \<Rightarrow>
                          s0\<lparr>unreadCounts :=
                               mergeUnread (unreadCounts s0) (serverUnread uid contacts Map.empty),
                             persistentContacts :=
                               map (\<lambda>c. setOnline (presenceFor s0 (user_id (otherUser c))) c)
                                   (sortBy compareContacts (map (stampUnread uid) contacts))\<rparr>);
                s2 = (if showSpinner then s1\<lparr>isLoading := False\<rparr> else s1)
            in s2\<lparr>firstLoadDone := True\<rparr>)"

definition loadPersistentContacts :: "contact list option \<Rightarrow> state \<Rightarrow> state" where
  "loadPersistentContacts response s = fetchContacts (\<not> firstLoadDone s) response s"

definition refreshContactsSilently :: "contact list option \<Rightarrow> state \<Rightarrow> state" where
  "refreshContactsSilently response s = fetchContacts False response s"

subsection \<open>Loading the messages of a chat\<close>

definition filterByCutoff :: "int \<Rightarrow> message list \<Rightarrow> tstamp \<Rightarrow> message list" where
  "filterByCutoff cid msgs cutoffIso =
     (if \<not> truthy cutoffIso then msgs
      else if toMs cutoffIso = 0 then msgs
      else filter (\<lambda>m. toMs (createdAt m) > toMs cutoffIso) msgs)"

definition loadActiveMessages :: "int \<Rightarrow> int \<Rightarrow> message list option \<Rightarrow> state \<Rightarrow> state" where
  "loadActiveMessages now cid response s =
     (case response of
        None \<Rightarrow> s\<lparr>activeMessages := (activeMessages s)(cid \<mapsto> [])\<rparr>
      | Some msgsRaw \<Rightarrow>
          let msgs = filterByCutoff cid msgsRaw (cutoffs s cid)
          in fold (scheduleMessageDeletion now) msgs
               (s\<lparr>activeMessages := (activeMessages s)(cid \<mapsto> msgs)\<rparr>))"

subsection \<open>Opening and deleting a chat\<close>

definition selectChat :: "int \<Rightarrow> contact option \<Rightarrow> message list option \<Rightarrow> state \<Rightarrow> state" where
  "selectChat now chat response s =
     (let s1 = s\<lparr>selectedChat := chat\<rparr> in
      case chat of
        None \<Rightarrow> s1
      | Some ch \<Rightarrow>
          if \<not> truthy_id (userId s) then s1
          else
            loadActiveMessages now (chat_id ch) response
              (s1\<lparr>unreadCounts := (unreadCounts s1)(chat_id ch := None),
                  persistentContacts :=
                    map (\<lambda>c. if chat_id c = chat_id ch then c\<lparr>unreadCount := Some 0\<rparr> else c)
                        (persistentContacts s1)\<rparr>))"

text \<open>
  \<open>deleteChat\<close> up to its server call; the silent refresh it starts afterwards is a
  separate run of \<open>refreshContactsSilently\<close>.
\<close>

definition deleteChat :: "int \<Rightarrow> int \<Rightarrow> state \<Rightarrow> state" where
  "deleteChat now cid s =
     (if \<not> truthy_id (userId s) then s
      else
        s\<lparr>cutoffs := (cutoffs s)(cid := Iso now),
          persistentContacts := filter (\<lambda>c. chat_id c \<noteq> cid) (persistentContacts s),
          activeMessages := (activeMessages s)(cid := None),
          selectedChat :=
            (case selectedChat s of
               None \<Rightarrow> None
             | Some p \<Rightarrow> if chat_id p = cid then None else Some p),
          unreadCounts := (unreadCounts s)(cid := None)\<rparr>)"

subsection \<open>Sending a message\<close>

text \<open>\<open>Number(destructTimerSec)\<close>: a number, or NaN for an input that is not numeric.\<close>

datatype jsnumber = Num int | NaN

text \<open>\<open>Number(destructTimerSec) || 0\<close>.\<close>

fun numberOrZero :: "jsnumber \<Rightarrow> int" where
  "numberOrZero (Num n) = n"
| "numberOrZero NaN = 0"

text \<open>A \<open>File\<close>, with the URL that \<open>URL.createObjectURL\<close> returns for it.\<close>

record jsfile =
  file_name :: string
  file_size :: int
  objectUrl :: string

text \<open>The JSON that \<open>uploadFile\<close> returns when it does not throw.\<close>

record upload =
  up_url :: string
  originalName :: "string option"
  up_size :: "int option"

text \<open>\<open>a || b\<close> on an optional string and on an optional number.\<close>

definition strOr :: "string option \<Rightarrow> string \<Rightarrow> string" where
  "strOr a b = (case a of None \<Rightarrow> b | Some x \<Rightarrow> if x = [] then b else x)"

definition numOr :: "int option \<Rightarrow> int \<Rightarrow> int" where
  "numOr a b = (case a of None \<Rightarrow> b | Some x \<Rightarrow> if x = 0 then b else x)"

text \<open>The preview labels: a camera and a paperclip (UTF-8), each before a word.\<close>

definition photoLabel :: string where
  "photoLabel = [CHR 0xF0, CHR 0x9F, CHR 0x93, CHR 0xB7] @ '' Photo''"

definition fileLabel :: string where
  "fileLabel = [CHR 0xF0, CHR 0x9F, CHR 0x93, CHR 0x8E] @ '' File''"

definition previewContent :: "string \<Rightarrow> string \<Rightarrow> string" where
  "previewContent type text =
     (if type = ''image'' then photoLabel else if type = ''file'' then fileLabel else text)"

definition destructSeconds :: "jsnumber \<Rightarrow> int" where
  "destructSeconds destructTimerSec = max (numberOrZero destructTimerSec) 5"

text \<open>
  The clock as \<open>sendMessage\<close> reads it: \<open>Date.now()\<close> for the temporary id, \<open>new Date()\<close>
  for \<open>createdAt\<close>, \<open>Date.now()\<close> for \<open>expiresAt\<close>, and \<open>Date.now()\<close> inside
  \<open>scheduleMessageDeletion\<close>. Nothing in the code makes two of them equal.
\<close>

record sendClock =
  atId :: int
  atCreated :: int
  atExpires :: int
  atSchedule :: int

text \<open>
  A \<open>Date\<close> holds a time of at most 8.64e15 ms on either side of the epoch;
  \<open>new Date(t).toISOString()\<close> throws a RangeError for any other \<open>t\<close>.
\<close>

datatype send_error = RangeError

definition maxDateMs :: int where
  "maxDateMs = 8640000000000000"

definition validDate :: "int \<Rightarrow> bool" where
  "validDate t = (- maxDateMs \<le> t \<and> t \<le> maxDateMs)"

definition toISOString :: "int \<Rightarrow> send_error + tstamp" where
  "toISOString t = (if validDate t then Inr (Iso t) else Inl RangeError)"

text \<open>
  The object literal \<open>optimistic\<close>. Its two \<open>toISOString\<close> calls run before any store is
  written, so a throw leaves the engine as it was.
\<close>

definition optimisticMessage ::
  "sendClock \<Rightarrow> int \<Rightarrow> contact \<Rightarrow> string \<Rightarrow> string \<Rightarrow> int \<Rightarrow> jsfile option
     \<Rightarrow> send_error + message" where
  "optimisticMessage ck uid ch text type secs f =
     (case toISOString (atCreated ck) of
        Inl e \<Rightarrow> Inl e
      | Inr created \<Rightarrow>
          (case toISOString (atExpires ck + secs * 1000) of
             Inl e \<Rightarrow> Inl e
           | Inr expires \<Rightarrow>
               Inr \<lparr>msg_id = atId ck,
                    chatId = chat_id ch,
                    senderId = uid,
                    receiverId = user_id (otherUser ch),
                    content =
                      (case f of
                         None \<Rightarrow> text
                       | Some fl \<Rightarrow> if type = ''image'' then objectUrl fl
                                    else if type = ''file'' then file_name fl
                                    else text),
                    messageType = type,
                    fileName = map_option file_name f,
                    fileSize = map_option file_size f,
                    createdAt = created,
                    expiresAt = expires,
                    expires_at = Undef,
                    destructTimer = Some secs\<rparr>))"

text \<open>
  The part of \<open>sendMessage\<close> from the placeholder to the awaited upload: the placeholder
  goes into the chat's sequence, its timer is set and the chat list is bumped. (The bump's
  own \<open>new Date()\<close> is behind \<open>lastMessage?.createdAt ||\<close> and is not reached.)
\<close>

definition sendOptimistic ::
  "sendClock \<Rightarrow> contact \<Rightarrow> string \<Rightarrow> string \<Rightarrow> message \<Rightarrow> state \<Rightarrow> state" where
  "sendOptimistic ck ch text type optimistic s =
     (let s1 = s\<lparr>activeMessages :=
                   (activeMessages s)(chat_id ch \<mapsto> messagesOf s (chat_id ch) @ [optimistic])\<rparr>;
          s2 = scheduleMessageDeletion (atSchedule ck) optimistic s1
      in bumpChatToTopAndUpdateLast (atSchedule ck) (chat_id ch)
           \<lparr>lm_id = atId ck, lm_content = previewContent type text,
            lm_createdAt = createdAt optimistic\<rparr>
           s2)"

definition wsPayload ::
  "int \<Rightarrow> contact \<Rightarrow> string \<Rightarrow> string \<Rightarrow> int \<Rightarrow> payload" where
  "wsPayload uid ch finalContent type secs =
     \<lparr>p_chatId = chat_id ch,
      p_senderId = uid,
      p_receiverId = user_id (otherUser ch),
      p_content = finalContent,
      p_messageType = type,
      p_destructTimer = secs,
      p_fileName = None,
      p_fileSize = None\<rparr>"

text \<open>
  The part after the upload: \<open>up\<close> is the outcome of \<open>uploadFile\<close>, \<open>None\<close> when it
  throws; \<open>tempId\<close> is the placeholder's id.
\<close>

definition sendSettle ::
  "int \<Rightarrow> int \<Rightarrow> contact \<Rightarrow> string \<Rightarrow> string \<Rightarrow> int \<Rightarrow> jsfile option \<Rightarrow> upload option
     \<Rightarrow> state \<Rightarrow> state" where
  "sendSettle tempId uid ch text type secs f up s =
     (case f of
        None \<Rightarrow> s\<lparr>emitted := emitted s @ [wsPayload uid ch text type secs]\<rparr>
      | Some fl \<Rightarrow>
          (case up of
             None \<Rightarrow>
               s\<lparr>activeMessages :=
                   (activeMessages s)
                     (chat_id ch \<mapsto> filter (\<lambda>m. msg_id m \<noteq> tempId) (messagesOf s (chat_id ch)))\<rparr>
           | Some u \<Rightarrow>
               let finalContent = up_url u;
                   fName = strOr (originalName u) (file_name fl);
                   fSize = numOr (up_size u) (file_size fl);
                   s1 = s\<lparr>activeMessages :=
                            (activeMessages s)
                              (chat_id ch \<mapsto>
                                 map (\<lambda>m. if msg_id m = tempId
                                           then m\<lparr>content := finalContent,
                                                  fileName := Some fName,
                                                  fileSize := Some fSize\<rparr>
                                           else m)
                                     (messagesOf s (chat_id ch)))\<rparr>
               in s1\<lparr>emitted := emitted s1 @
                        [(wsPayload uid ch finalContent type secs)
                           \<lparr>p_fileName := Some (strOr (Some fName) (file_name fl)),
                            p_fileSize := Some (numOr (Some fSize) (file_size fl))\<rparr>]\<rparr>))"

text \<open>
  \<open>sendMessage\<close>: \<open>Inl\<close> when the call throws (the promise is rejected), otherwise the
  stores after it. A request of \<open>Infinity\<close> behaves as a number past the range of a
  \<open>Date\<close>, one of \<open>-Infinity\<close> as a number below 5.
\<close>

definition sendMessage ::
  "sendClock \<Rightarrow> string \<Rightarrow> string \<Rightarrow> jsnumber \<Rightarrow> jsfile option \<Rightarrow> upload option \<Rightarrow> state
     \<Rightarrow> send_error + state" where
  "sendMessage ck text type destructTimerSec f up s =
     (case selectedChat s of
        None \<Rightarrow> Inr s
      | Some ch \<Rightarrow>
          (case userId s of
             None \<Rightarrow> Inr s
           | Some uid \<Rightarrow>
               if uid = 0 then Inr s
               else if \<not> socketSend s then Inr s
               else
                 let secs = destructSeconds destructTimerSec
                 in (case optimisticMessage ck uid ch text type secs f of
                       Inl e \<Rightarrow> Inl e
                     | Inr optimistic \<Rightarrow>
                         Inr (sendSettle (atId ck) uid ch text type secs f up
                                (sendOptimistic ck ch text type optimistic s)))))"

text \<open>The stores after a call: a call that throws leaves them as they were.\<close>

definition storesAfter :: "state \<Rightarrow> send_error + state \<Rightarrow> state" where
  "storesAfter s r = (case r of Inl e \<Rightarrow> s | Inr s' \<Rightarrow> s')"

subsection \<open>Inbound socket events\<close>

datatype ws_event =
    OnlineUsers "int list"
  | UserStatus int bool
  | ProfileUpdated int string
  | Typing int int int bool
  | NewMessage message

text \<open>\<open>String.prototype.trim\<close> on the white space of ASCII.\<close>

definition isSpace :: "char \<Rightarrow> bool" where
  "isSpace c = (c \<in> set [CHR '' '', CHR 0x09, CHR 0x0A, CHR 0x0B, CHR 0x0C, CHR 0x0D])"

definition trim :: "string \<Rightarrow> string" where
  "trim str = rev (dropWhile isSpace (rev (dropWhile isSpace str)))"

definition setUsername :: "string \<Rightarrow> contact \<Rightarrow> contact" where
  "setUsername n c = c\<lparr>otherUser := (otherUser c)\<lparr>username := n\<rparr>\<rparr>"

text \<open>
  The cutoff test of the \<open>new_message\<close> branch: true when the event is dropped.
\<close>

definition beforeCutoff :: "state \<Rightarrow> message \<Rightarrow> bool" where
  "beforeCutoff s m =
     (let cutoffIso = cutoffs s (chatId m) in
      if truthy cutoffIso
      then toMs cutoffIso \<noteq> 0 \<and> toMs (createdAt m) \<noteq> 0 \<and> toMs (createdAt m) \<le> toMs cutoffIso
      else False)"

definition appendIfNew :: "message \<Rightarrow> state \<Rightarrow> state" where
  "appendIfNew m s =
     (let arr = messagesOf s (chatId m) in
      if \<not> list_ex (\<lambda>x. msg_id x = msg_id m) arr
      then s\<lparr>activeMessages := (activeMessages s)(chatId m \<mapsto> arr @ [m])\<rparr>
      else s)"

definition bumpUnread :: "message \<Rightarrow> state \<Rightarrow> state" where
  "bumpUnread m s =
     (if (case selectedChat s of None \<Rightarrow> True | Some ch \<Rightarrow> chat_id ch \<noteq> chatId m)
      then s\<lparr>unreadCounts := (unreadCounts s)(chatId m \<mapsto> unreadOf s (chatId m) + 1)\<rparr>
      else s)"

fun handleWSData :: "int \<Rightarrow> ws_event \<Rightarrow> state \<Rightarrow> state" where
  "handleWSData now (OnlineUsers userIds) s =
     fold (\<lambda>uid st. if uid \<noteq> 0 \<and> Some uid \<noteq> userId s then applyPresence uid True st else st)
          (filter (\<lambda>x. x \<noteq> 0) userIds) s"
| "handleWSData now (UserStatus uid online) s =
     (if uid = 0 then s else applyPresence uid online s)"
| "handleWSData now (ProfileUpdated uid name) s =
     (let n = trim name in
      if uid = 0 \<or> n = [] then s
      else s\<lparr>persistentContacts :=
               map (\<lambda>c. if user_id (otherUser c) \<noteq> uid then c else setUsername n c)
                   (persistentContacts s),
             selectedChat :=
               (case selectedChat s of
                  None \<Rightarrow> None
                | Some p \<Rightarrow> if user_id (otherUser p) \<noteq> uid then Some p
                            else Some (setUsername n p))\<rparr>)"
| "handleWSData now (Typing cid sender receiver isTyping) s =
     (if cid = 0 \<or> Some receiver \<noteq> userId s then s
      else if Some sender = userId s then s
      else
        let s1 = setTypingState cid isTyping (clearTypingTimer cid s)
        in if isTyping
           then (let (t, s2) = setTimeout (ClearTyping cid) 3000 s1
                 in s2\<lparr>typingTimeouts := (typingTimeouts s2)(cid \<mapsto> t)\<rparr>)
           else s1)"
| "handleWSData now (NewMessage m) s =
     (if Some (receiverId m) \<noteq> userId s then s
      else if beforeCutoff s m then s
      else
        bumpUnread m
          (bumpChatToTopAndUpdateLast now (chatId m)
             \<lparr>lm_id = msg_id m,
              lm_content = previewContent (messageType m) (content m),
              lm_createdAt = js_or (createdAt m) (Iso now)\<rparr>
             (scheduleMessageDeletion now m (appendIfNew m s))))"

subsection \<open>The first render, and sample data\<close>

text \<open>The stores as the hook creates them, for a user id and a socket.\<close>

definition initialState :: "int option \<Rightarrow> bool \<Rightarrow> state" where
  "initialState uid sock =
     \<lparr>userId = uid,
      socketSend = sock,
      persistentContacts = [],
      activeMessages = Map.empty,
      selectedChat = None,
      isLoading = False,
      firstLoadDone = False,
      unreadCounts = Map.empty,
      typingByChat = Map.empty,
      typingTimeouts = Map.empty,
      deletionTimers = Map.empty,
      cutoffs = (\<lambda>c. Undef),
      presence = Map.empty,
      pending = [],
      nextHandle = 1,
      emitted = []\<rparr>"

definition alice :: user where
  "alice = \<lparr>user_id = 2, username = ''alice'', isOnline = True\<rparr>"

definition bob :: user where
  "bob = \<lparr>user_id = 3, username = ''bob'', isOnline = False\<rparr>"

definition chatA :: contact where
  "chatA =
     \<lparr>chat_id = 10, participant1Id = 1, participant2Id = 2,
      unreadCount1 = Some 1, unreadCount2 = None,
      otherUser = alice, lastMessage = None,
      lastMessageTimestamp = Iso 500, chat_createdAt = Iso 100, unreadCount = None\<rparr>"

definition chatB :: contact where
  "chatB =
     \<lparr>chat_id = 11, participant1Id = 3, participant2Id = 1,
      unreadCount1 = Some 4, unreadCount2 = Some 0,
      otherUser = bob, lastMessage = None,
      lastMessageTimestamp = Iso 300, chat_createdAt = Iso 200, unreadCount = None\<rparr>"

text \<open>User 1 with two chats, chat B open, two unread messages counted for chat A.\<close>

definition sampleState :: state where
  "sampleState =
     (initialState (Some 1) True)
       \<lparr>persistentContacts := [chatA, chatB],
        selectedChat := Some chatB,
        unreadCounts := [10 \<mapsto> 2],
        presence := [2 \<mapsto> True]\<rparr>"

text \<open>A clock that stands still at \<open>t\<close>, and one that ticks between two readings.\<close>

definition clockAt :: "int \<Rightarrow> sendClock" where
  "clockAt t = \<lparr>atId = t, atCreated = t, atExpires = t, atSchedule = t\<rparr>"

definition tickingClock :: sendClock where
  "tickingClock = \<lparr>atId = 7000, atCreated = 7000, atExpires = 7001, atSchedule = 7001\<rparr>"

text \<open>The time from creation to expiry of each message of a sequence, in ms.\<close>

fun lifetimes :: "message list \<Rightarrow> int list" where
  "lifetimes [] = []"
| "lifetimes (m # ms) = (toMs (expiresAt m) - toMs (createdAt m)) # lifetimes ms"

definition samplePreview :: preview where
  "samplePreview = \<lparr>lm_id = 7, lm_content = ''hi'', lm_createdAt = Iso 900\<rparr>"

subsection \<open>Runs of the engine\<close>

text \<open>
  What can happen to the engine, one handler run at a time: a socket event, a send, the
  user opening or deleting a chat, a (re)load of the chat list, a timeout firing, and a
  change of \<open>socket.isConnected\<close>.
\<close>

datatype action =
    Inbound int ws_event
  | Send sendClock string string jsnumber "jsfile option" "upload option"
  | Select int "contact option" "message list option"
  | Delete int int
  | Refresh bool "contact list option"
  | Fire nat
  | Connection bool

fun perform :: "action \<Rightarrow> state \<Rightarrow> state" where
  "perform (Inbound now ev) s = handleWSData now ev s"
| "perform (Send ck text type secs f up) s = storesAfter s (sendMessage ck text type secs f up s)"
| "perform (Select now chat response) s = selectChat now chat response s"
| "perform (Delete now cid) s = deleteChat now cid s"
| "perform (Refresh spinner response) s = fetchContacts spinner response s"
| "perform (Fire h) s = fireTimeout h s"
| "perform (Connection isConnected) s = onConnectionChange isConnected s"

text \<open>The actions that are not one of the two presence events.\<close>

fun noPresenceEvent :: "action \<Rightarrow> bool" where
  "noPresenceEvent (Inbound now (OnlineUsers ids)) = False"
| "noPresenceEvent (Inbound now (UserStatus uid online)) = False"
| "noPresenceEvent a = True"

text \<open>
  The actions that bring no online flag at all: not a presence event, and a chat handed to
  \<open>selectChat\<close> is one that reads offline.
\<close>

fun keepsPresence :: "action \<Rightarrow> bool" where
  "keepsPresence (Inbound now (OnlineUsers ids)) = False"
| "keepsPresence (Inbound now (UserStatus uid online)) = False"
| "keepsPresence (Select now (Some ch) response) = (\<not> isOnline (otherUser ch))"
| "keepsPresence a = True"

text \<open>
  Every chat summary reads offline; every chat summary and the open chat read offline; a
  chat is open and reads online.
\<close>

definition openChatOnline :: "state \<Rightarrow> bool" where
  "openChatOnline s =
     (case selectedChat s of None \<Rightarrow> False | Some c \<Rightarrow> isOnline (otherUser c))"

definition summariesOffline :: "state \<Rightarrow> bool" where
  "summariesOffline s = list_all (\<lambda>c. \<not> isOnline (otherUser c)) (persistentContacts s)"

definition everyoneOffline :: "state \<Rightarrow> bool" where
  "everyoneOffline s =
     (list_all (\<lambda>c. \<not> isOnline (otherUser c)) (persistentContacts s) \<and>
      (case selectedChat s of None \<Rightarrow> True | Some c \<Rightarrow> \<not> isOnline (otherUser c)))"

subsection \<open>The order the specification describes\<close>

text \<open>
  The specification's sort key, in its words: the most recent of the last message's
  timestamp, the chat's last-activity timestamp and the chat's creation timestamp.
\<close>

definition specSortKey :: "contact \<Rightarrow> int" where
  "specSortKey c =
     max (toMs (case lastMessage c of None \<Rightarrow> Undef | Some lm \<Rightarrow> lm_createdAt lm))
         (max (toMs (lastMessageTimestamp c)) (toMs (chat_createdAt c)))"

text \<open>The key the comparator of \<open>fetchContacts\<close> reads, as a number.\<close>

definition codeSortKey :: "contact \<Rightarrow> int" where
  "codeSortKey c = toMs (sortTime c)"

fun descendingBy :: "('a \<Rightarrow> int) \<Rightarrow> 'a list \<Rightarrow> bool" where
  "descendingBy key [] = True"
| "descendingBy key (x # xs) = (list_all (\<lambda>y. key y \<le> key x) xs \<and> descendingBy key xs)"

text \<open>Two chats whose last-activity stamps and last messages disagree about the order.\<close>

definition chatX :: contact where
  "chatX =
     \<lparr>chat_id = 20, participant1Id = 1, participant2Id = 2,
      unreadCount1 = None, unreadCount2 = None,
      otherUser = alice,
      lastMessage = Some \<lparr>lm_id = 1, lm_content = ''old'', lm_createdAt = Iso 10\<rparr>,
      lastMessageTimestamp = Iso 100, chat_createdAt = Iso 1, unreadCount = None\<rparr>"

definition chatY :: contact where
  "chatY =
     \<lparr>chat_id = 21, participant1Id = 1, participant2Id = 3,
      unreadCount1 = None, unreadCount2 = None,
      otherUser = bob,
      lastMessage = Some \<lparr>lm_id = 2, lm_content = ''new'', lm_createdAt = Iso 50\<rparr>,
      lastMessageTimestamp = Iso 50, chat_createdAt = Iso 2, unreadCount = None\<rparr>"

definition sampleFile :: jsfile where
  "sampleFile = \<lparr>file_name = ''cat.png'', file_size = 2048, objectUrl = ''blob:1''\<rparr>"

subsection \<open>Live expiry timers\<close>

text \<open>
  The live timeouts whose callback deletes message \<open>i\<close>, and the invariant that ties
  the runtime's table to the map \<open>deletionTimersRef\<close>: handles are positive, below the
  next handle and pairwise different; a live expiry timer is the one the map records for
  its message id; and a handle the map records for an id belongs to no other timer.
\<close>

fun deletesId :: "int \<Rightarrow> callback \<Rightarrow> bool" where
  "deletesId i (DeleteMessage c j) = (j = i)"
| "deletesId i (ClearTyping c) = False"

definition isExpiryTimerFor :: "int \<Rightarrow> nat \<times> timeout \<Rightarrow> bool" where
  "isExpiryTimerFor i p = deletesId i (cb (snd p))"

definition expiryTimersFor :: "state \<Rightarrow> int \<Rightarrow> (nat \<times> timeout) list" where
  "expiryTimersFor s i = filter (isExpiryTimerFor i) (pending s)"

fun registered :: "(int \<rightharpoonup> nat) \<Rightarrow> nat \<Rightarrow> callback \<Rightarrow> bool" where
  "registered timers h (DeleteMessage c i) = (timers i = Some h)"
| "registered timers h (ClearTyping c) = True"

definition timerEntryOk :: "state \<Rightarrow> nat \<times> timeout \<Rightarrow> bool" where
  "timerEntryOk s p =
     (0 < fst p \<and> fst p < nextHandle s \<and> registered (deletionTimers s) (fst p) (cb (snd p)))"

definition timersOk :: "state \<Rightarrow> bool" where
  "timersOk s =
     (0 < nextHandle s \<and>
      distinct (map fst (pending s)) \<and>
      list_all (timerEntryOk s) (pending s) \<and>
      (\<forall>i h. deletionTimers s i = Some h \<longrightarrow>
         h < nextHandle s \<and> list_all (\<lambda>p. fst p = h \<longrightarrow> isExpiryTimerFor i p) (pending s)))"

text \<open>Message \<open>i\<close> has exactly one live expiry timer, set at least 200 ms ahead.\<close>

definition armed :: "state \<Rightarrow> int \<Rightarrow> bool" where
  "armed s i = (case expiryTimersFor s i of [p] \<Rightarrow> 200 \<le> delay (snd p) | _ \<Rightarrow> False)"

text \<open>
  An inbound message for user 1 in chat A, and one whose expiry is only in the
  snake-case field.
\<close>

definition sampleMessage :: message where
  "sampleMessage =
     \<lparr>msg_id = 77, chatId = 10, senderId = 2, receiverId = 1,
      content = ''hello'', messageType = ''text'',
      fileName = None, fileSize = None,
      createdAt = Iso 1000, expiresAt = Iso 9000, expires_at = Undef,
      destructTimer = Some 8\<rparr>"


text \<open>
  A run from the first render: the list loads, chat B is opened, and an image is sent
  whose upload fails.
\<close>

definition failedUploadRun :: "action list" where
  "failedUploadRun =
     [Refresh True (Some [chatA, chatB]),
      Select 100 (Some chatB) (Some []),
      Send (clockAt 7000) [] ''image'' (Num 30) (Some sampleFile) None]"

text \<open>The state after one inbound message, and the state after the failed upload.\<close>

definition afterInbound :: state where
  "afterInbound = fold perform [Inbound 500 (NewMessage sampleMessage)] (initialState (Some 1) True)"

definition afterFailedUpload :: state where
  "afterFailedUpload = fold perform failedUploadRun (initialState (Some 1) True)"



definition oldMessage :: message where
  "oldMessage = sampleMessage\<lparr>msg_id := 76, createdAt := Iso 400\<rparr>"



definition cutState :: state where
  "cutState = deleteChat 500 10 sampleState"

text \<open>No chat has a negative unread count.\<close>

definition unreadNonneg :: "state \<Rightarrow> bool" where
  "unreadNonneg s = (\<forall>k. 0 \<le> unreadOf s k)"

section \<open>Properties\<close>

subsection \<open>What the timer operations leave alone\<close>

lemma clearTimeout_fields [simp]:
  "userId (clearTimeout h s) = userId s"
  "socketSend (clearTimeout h s) = socketSend s"
  "persistentContacts (clearTimeout h s) = persistentContacts s"
  "activeMessages (clearTimeout h s) = activeMessages s"
  "selectedChat (clearTimeout h s) = selectedChat s"
  "unreadCounts (clearTimeout h s) = unreadCounts s"
  "typingByChat (clearTimeout h s) = typingByChat s"
  "typingTimeouts (clearTimeout h s) = typingTimeouts s"
  "deletionTimers (clearTimeout h s) = deletionTimers s"
  "cutoffs (clearTimeout h s) = cutoffs s"
  "presence (clearTimeout h s) = presence s"
  "nextHandle (clearTimeout h s) = nextHandle s"
  "emitted (clearTimeout h s) = emitted s"
  "pending (clearTimeout h s) = filter (\<lambda>p. fst p \<noteq> h) (pending s)"
  by (simp_all add: clearTimeout_def)

lemma clearTimer_fields [simp]:
  "userId (clearTimer i s) = userId s"
  "socketSend (clearTimer i s) = socketSend s"
  "persistentContacts (clearTimer i s) = persistentContacts s"
  "activeMessages (clearTimer i s) = activeMessages s"
  "selectedChat (clearTimer i s) = selectedChat s"
  "unreadCounts (clearTimer i s) = unreadCounts s"
  "typingByChat (clearTimer i s) = typingByChat s"
  "typingTimeouts (clearTimer i s) = typingTimeouts s"
  "cutoffs (clearTimer i s) = cutoffs s"
  "presence (clearTimer i s) = presence s"
  "nextHandle (clearTimer i s) = nextHandle s"
  "emitted (clearTimer i s) = emitted s"
  "deletionTimers (clearTimer i s) = (deletionTimers s)(i := None)"
  by (simp_all add: clearTimer_def Let_def split: option.splits)

lemma schedule_fields [simp]:
  "userId (scheduleMessageDeletion now m s) = userId s"
  "socketSend (scheduleMessageDeletion now m s) = socketSend s"
  "persistentContacts (scheduleMessageDeletion now m s) = persistentContacts s"
  "activeMessages (scheduleMessageDeletion now m s) = activeMessages s"
  "selectedChat (scheduleMessageDeletion now m s) = selectedChat s"
  "unreadCounts (scheduleMessageDeletion now m s) = unreadCounts s"
  "typingByChat (scheduleMessageDeletion now m s) = typingByChat s"
  "typingTimeouts (scheduleMessageDeletion now m s) = typingTimeouts s"
  "cutoffs (scheduleMessageDeletion now m s) = cutoffs s"
  "presence (scheduleMessageDeletion now m s) = presence s"
  "emitted (scheduleMessageDeletion now m s) = emitted s"
  by (simp_all add: scheduleMessageDeletion_def setTimeout_def Let_def)

lemma messagesOf_schedule [simp]:
  "messagesOf (scheduleMessageDeletion now m s) c = messagesOf s c"
  by (simp add: messagesOf_def)

lemma fold_schedule_fields [simp]:
  "userId (fold (scheduleMessageDeletion now) ms s) = userId s"
  "socketSend (fold (scheduleMessageDeletion now) ms s) = socketSend s"
  "persistentContacts (fold (scheduleMessageDeletion now) ms s) = persistentContacts s"
  "activeMessages (fold (scheduleMessageDeletion now) ms s) = activeMessages s"
  "selectedChat (fold (scheduleMessageDeletion now) ms s) = selectedChat s"
  "unreadCounts (fold (scheduleMessageDeletion now) ms s) = unreadCounts s"
  "cutoffs (fold (scheduleMessageDeletion now) ms s) = cutoffs s"
  "presence (fold (scheduleMessageDeletion now) ms s) = presence s"
  "emitted (fold (scheduleMessageDeletion now) ms s) = emitted s"
  by (induction ms arbitrary: s) simp_all

subsection \<open>Bumping a chat\<close>

lemma findIndex_None_iff: "findIndex cid xs = None \<longleftrightarrow> cid \<notin> chat_id ` set xs"
  by (induction xs) auto

lemma findIndex_Some:
  "findIndex cid xs = Some i \<Longrightarrow>
     i < length xs \<and> chat_id (xs ! i) = cid \<and> (\<forall>j<i. chat_id (xs ! j) \<noteq> cid)"
proof (induction xs arbitrary: i)
  case Nil
  then show ?case by simp
next
  case (Cons c cs)
  show ?case
  proof (cases "chat_id c = cid")
    case True
    with Cons.prems show ?thesis by simp
  next
    case False
    with Cons.prems obtain k where k: "findIndex cid cs = Some k" "i = Suc k" by auto
    from Cons.IH [OF k(1)] False k(2) show ?thesis
      by (auto simp: less_Suc_eq_0_disj)
  qed
qed

text \<open>
  Claim C10. \<open>bumpChatToTopAndUpdateLast\<close> with a chat id that is not in the chat list
  returns the state as it was, so no entry is created. With a chat id that is in the list,
  the first entry \<open>idx\<close> with that id gets the new preview and its timestamp and moves to
  the front; the list behind it is the old list without position \<open>idx\<close>, every entry as
  it was and in the old order; no other store changes.
\<close>

theorem bumpChatToTopAndUpdateLast_frame:
  "(cid \<notin> chat_id ` set (persistentContacts s) \<longrightarrow>
      bumpChatToTopAndUpdateLast now cid lm s = s) \<and>
   (cid \<in> chat_id ` set (persistentContacts s) \<longrightarrow>
      (\<exists>idx < length (persistentContacts s).
         chat_id (persistentContacts s ! idx) = cid \<and>
         (\<forall>j<idx. chat_id (persistentContacts s ! j) \<noteq> cid) \<and>
         bumpChatToTopAndUpdateLast now cid lm s =
           s\<lparr>persistentContacts :=
               (persistentContacts s ! idx)
                 \<lparr>lastMessage := Some lm,
                  lastMessageTimestamp := js_or (lm_createdAt lm) (Iso now)\<rparr>
               # (take idx (persistentContacts s) @ drop (Suc idx) (persistentContacts s))\<rparr>))"
proof (cases "findIndex cid (persistentContacts s)")
  case None
  then have "cid \<notin> chat_id ` set (persistentContacts s)"
    by (simp add: findIndex_None_iff)
  with None show ?thesis
    by (simp add: bumpChatToTopAndUpdateLast_def bumpList_def)
next
  case (Some idx)
  have "cid \<in> chat_id ` set (persistentContacts s)"
    using Some findIndex_None_iff [of cid "persistentContacts s"] by auto
  moreover have "bumpChatToTopAndUpdateLast now cid lm s =
           s\<lparr>persistentContacts :=
               (persistentContacts s ! idx)
                 \<lparr>lastMessage := Some lm,
                  lastMessageTimestamp := js_or (lm_createdAt lm) (Iso now)\<rparr>
               # (take idx (persistentContacts s) @ drop (Suc idx) (persistentContacts s))\<rparr>"
    using Some by (simp add: bumpChatToTopAndUpdateLast_def bumpList_def dropIndex_def)
  ultimately show ?thesis using findIndex_Some [OF Some] by blast
qed

theorem bumpChatToTopAndUpdateLast_frame_witness:
  "12 \<notin> chat_id ` set (persistentContacts sampleState) \<and>
   bumpChatToTopAndUpdateLast 1000 12 samplePreview sampleState = sampleState \<and>
   11 \<in> chat_id ` set (persistentContacts sampleState) \<and>
   persistentContacts (bumpChatToTopAndUpdateLast 1000 11 samplePreview sampleState) =
     [chatB\<lparr>lastMessage := Some samplePreview, lastMessageTimestamp := Iso 900\<rparr>, chatA]"
proof -
  have out: "12 \<notin> chat_id ` set (persistentContacts sampleState)"
    and inn: "11 \<in> chat_id ` set (persistentContacts sampleState)"
    by (simp_all add: sampleState_def initialState_def chatA_def chatB_def)
  from bumpChatToTopAndUpdateLast_frame [of 12 sampleState 1000 samplePreview] out
  have a: "bumpChatToTopAndUpdateLast 1000 12 samplePreview sampleState = sampleState"
    by blast
  from bumpChatToTopAndUpdateLast_frame [of 11 sampleState 1000 samplePreview] inn
  obtain idx where idx: "idx < length (persistentContacts sampleState)"
      "chat_id (persistentContacts sampleState ! idx) = 11"
      "bumpChatToTopAndUpdateLast 1000 11 samplePreview sampleState =
         sampleState\<lparr>persistentContacts :=
           (persistentContacts sampleState ! idx)
             \<lparr>lastMessage := Some samplePreview,
              lastMessageTimestamp := js_or (lm_createdAt samplePreview) (Iso 1000)\<rparr>
           # (take idx (persistentContacts sampleState)
              @ drop (Suc idx) (persistentContacts sampleState))\<rparr>"
    by blast
  from idx(1,2) have "idx = 1"
    by (auto simp: sampleState_def initialState_def chatA_def chatB_def less_Suc_eq)
  with idx(3)
  have b: "persistentContacts (bumpChatToTopAndUpdateLast 1000 11 samplePreview sampleState) =
     [chatB\<lparr>lastMessage := Some samplePreview, lastMessageTimestamp := Iso 900\<rparr>, chatA]"
    by (simp add: sampleState_def initialState_def samplePreview_def js_or_def)
  from out a inn b show ?thesis by blast
qed

subsection \<open>Unread counters\<close>





lemma unreadCounts_load [simp]:
  "unreadCounts (loadActiveMessages now c r s) = unreadCounts s"
  by (simp add: loadActiveMessages_def Let_def split: option.splits)



subsection \<open>Sending\<close>


lemma bump_fields [simp]:
  "userId (bumpChatToTopAndUpdateLast now c lm s) = userId s"
  "socketSend (bumpChatToTopAndUpdateLast now c lm s) = socketSend s"
  "activeMessages (bumpChatToTopAndUpdateLast now c lm s) = activeMessages s"
  "selectedChat (bumpChatToTopAndUpdateLast now c lm s) = selectedChat s"
  "unreadCounts (bumpChatToTopAndUpdateLast now c lm s) = unreadCounts s"
  "typingByChat (bumpChatToTopAndUpdateLast now c lm s) = typingByChat s"
  "typingTimeouts (bumpChatToTopAndUpdateLast now c lm s) = typingTimeouts s"
  "deletionTimers (bumpChatToTopAndUpdateLast now c lm s) = deletionTimers s"
  "cutoffs (bumpChatToTopAndUpdateLast now c lm s) = cutoffs s"
  "presence (bumpChatToTopAndUpdateLast now c lm s) = presence s"
  "pending (bumpChatToTopAndUpdateLast now c lm s) = pending s"
  "nextHandle (bumpChatToTopAndUpdateLast now c lm s) = nextHandle s"
  "emitted (bumpChatToTopAndUpdateLast now c lm s) = emitted s"
  "persistentContacts (bumpChatToTopAndUpdateLast now c lm s) =
     bumpList now c lm (persistentContacts s)"
  by (simp_all add: bumpChatToTopAndUpdateLast_def)

lemma messagesOf_bump [simp]:
  "messagesOf (bumpChatToTopAndUpdateLast now c lm s) k = messagesOf s k"
  by (simp add: messagesOf_def)

lemma messagesOf_sendOptimistic:
  "messagesOf (sendOptimistic ck ch body kind m s) (chat_id ch) = messagesOf s (chat_id ch) @ [m]"
  by (simp add: sendOptimistic_def Let_def messagesOf_def)

lemma emitted_sendOptimistic [simp]:
  "emitted (sendOptimistic ck ch body kind m s) = emitted s"
  by (simp add: sendOptimistic_def Let_def)

lemma optimisticMessage_valid:
  assumes "validDate (atCreated ck)" "validDate (atExpires ck + secs * 1000)"
  shows "\<exists>m. optimisticMessage ck uid ch body kind secs f = Inr m \<and>
           msg_id m = atId ck \<and> chatId m = chat_id ch \<and>
           createdAt m = Iso (atCreated ck) \<and>
           expiresAt m = Iso (atExpires ck + secs * 1000) \<and> expires_at m = Undef"
  using assms by (simp add: optimisticMessage_def toISOString_def)

lemma optimisticMessage_throws:
  assumes "\<not> (validDate (atCreated ck) \<and> validDate (atExpires ck + secs * 1000))"
  shows "optimisticMessage ck uid ch body kind secs f = Inl RangeError"
  using assms by (auto simp: optimisticMessage_def toISOString_def)

lemma sendMessage_ready:
  "selectedChat s = Some ch \<Longrightarrow> userId s = Some uid \<Longrightarrow> uid \<noteq> 0 \<Longrightarrow> socketSend s \<Longrightarrow>
   optimisticMessage ck uid ch body kind (destructSeconds req) f = Inr m \<Longrightarrow>
   sendMessage ck body kind req f up s =
     Inr (sendSettle (atId ck) uid ch body kind (destructSeconds req) f up
            (sendOptimistic ck ch body kind m s))"
  by (simp add: sendMessage_def Let_def)

lemma sendMessage_throws:
  "selectedChat s = Some ch \<Longrightarrow> userId s = Some uid \<Longrightarrow> uid \<noteq> 0 \<Longrightarrow> socketSend s \<Longrightarrow>
   optimisticMessage ck uid ch body kind (destructSeconds req) f = Inl e \<Longrightarrow>
   sendMessage ck body kind req f up s = Inl e"
  by (simp add: sendMessage_def Let_def)

text \<open>Whatever the call does, the stores afterwards are the old ones or those of a send.\<close>

lemma storesAfter_send:
  "storesAfter s (sendMessage ck body kind req f up s) = s \<or>
   (\<exists>ch uid secs m.
      storesAfter s (sendMessage ck body kind req f up s) =
        sendSettle (atId ck) uid ch body kind secs f up (sendOptimistic ck ch body kind m s))"
  by (auto simp: sendMessage_def storesAfter_def Let_def split: option.splits sum.splits)

text \<open>
  Claim C8, as amended. When \<open>sendMessage\<close> goes ahead (a chat is open, the user is
  logged in, the socket can send), the seconds it uses are max(requested, 5) for a number,
  zero and negative ones included, and 5 for an input that is not a number. If the
  creation reading of the clock, or the expiry reading plus 1000 ms for each of those
  seconds, is outside the range of a \<open>Date\<close>, the call throws a RangeError and no store
  and no socket is touched. Otherwise the placeholder has the id reading as id, the
  creation reading as creation time, and as expiry the expiry reading plus 1000 ms for
  each of those seconds: creation time plus those seconds plus whatever the clock moved
  between the two readings. Unless an upload fails, a message with that id and those two
  times is in the chat's sequence afterwards and one payload was emitted, carrying the
  same number of seconds.
\<close>

theorem sendMessage_expiry_floor:
  assumes r: "selectedChat s = Some ch" "userId s = Some uid" "uid \<noteq> 0" "socketSend s"
  shows "destructSeconds req = (case req of Num n \<Rightarrow> max n 5 | NaN \<Rightarrow> 5) \<and>
    (\<not> (validDate (atCreated ck) \<and> validDate (atExpires ck + 1000 * destructSeconds req)) \<longrightarrow>
       sendMessage ck body kind req f up s = Inl RangeError) \<and>
    (validDate (atCreated ck) \<and> validDate (atExpires ck + 1000 * destructSeconds req) \<longrightarrow>
       (\<exists>m. optimisticMessage ck uid ch body kind (destructSeconds req) f = Inr m \<and>
          msg_id m = atId ck \<and> createdAt m = Iso (atCreated ck) \<and>
          expiresAt m = Iso (atExpires ck + 1000 * destructSeconds req) \<and>
          toMs (expiresAt m) =
            toMs (createdAt m) + 1000 * destructSeconds req + (atExpires ck - atCreated ck) \<and>
          messagesOf (sendOptimistic ck ch body kind m s) (chat_id ch)
            = messagesOf s (chat_id ch) @ [m]) \<and>
       (\<exists>s'. sendMessage ck body kind req f up s = Inr s' \<and>
          (f = None \<or> up \<noteq> None \<longrightarrow>
             (\<exists>m. m \<in> set (messagesOf s' (chat_id ch)) \<and>
                   msg_id m = atId ck \<and> createdAt m = Iso (atCreated ck) \<and>
                   expiresAt m = Iso (atExpires ck + 1000 * destructSeconds req) \<and>
                   toMs (expiresAt m) =
                     toMs (createdAt m) + 1000 * destructSeconds req
                       + (atExpires ck - atCreated ck)) \<and>
             (\<exists>p. emitted s' = emitted s @ [p] \<and> p_destructTimer p = destructSeconds req))))"
proof (intro conjI impI)
  show "destructSeconds req = (case req of Num n \<Rightarrow> max n 5 | NaN \<Rightarrow> 5)"
    by (cases req) (simp_all add: destructSeconds_def)
next
  assume "\<not> (validDate (atCreated ck) \<and> validDate (atExpires ck + 1000 * destructSeconds req))"
  then have "optimisticMessage ck uid ch body kind (destructSeconds req) f = Inl RangeError"
    by (intro optimisticMessage_throws) (simp add: mult.commute)
  then show "sendMessage ck body kind req f up s = Inl RangeError"
    by (rule sendMessage_throws [OF r])
next
  let ?secs = "destructSeconds req"
  assume v: "validDate (atCreated ck) \<and> validDate (atExpires ck + 1000 * ?secs)"
  then have "validDate (atCreated ck)" "validDate (atExpires ck + ?secs * 1000)"
    by (simp_all add: mult.commute)
  from optimisticMessage_valid [OF this, of uid ch body kind f]
  obtain m where m: "optimisticMessage ck uid ch body kind ?secs f = Inr m"
      "msg_id m = atId ck" "createdAt m = Iso (atCreated ck)"
      "expiresAt m = Iso (atExpires ck + 1000 * ?secs)"
    by (auto simp: mult.commute)
  let ?s1 = "sendOptimistic ck ch body kind m s"
  let ?s' = "sendSettle (atId ck) uid ch body kind ?secs f up ?s1"
  have eq: "sendMessage ck body kind req f up s = Inr ?s'"
    by (rule sendMessage_ready [OF r m(1)])
  have one: "messagesOf ?s1 (chat_id ch) = messagesOf s (chat_id ch) @ [m]"
    by (rule messagesOf_sendOptimistic)
  from m one
  show "\<exists>m. optimisticMessage ck uid ch body kind (destructSeconds req) f = Inr m \<and>
          msg_id m = atId ck \<and> createdAt m = Iso (atCreated ck) \<and>
          expiresAt m = Iso (atExpires ck + 1000 * destructSeconds req) \<and>
          toMs (expiresAt m) =
            toMs (createdAt m) + 1000 * destructSeconds req + (atExpires ck - atCreated ck) \<and>
          messagesOf (sendOptimistic ck ch body kind m s) (chat_id ch)
            = messagesOf s (chat_id ch) @ [m]"
    by (intro exI [of _ m]) (simp add: toMs_def)
  have msg: "\<exists>x. x \<in> set (messagesOf ?s' (chat_id ch)) \<and>
                 msg_id x = atId ck \<and> createdAt x = Iso (atCreated ck) \<and>
                 expiresAt x = Iso (atExpires ck + 1000 * ?secs) \<and>
                 toMs (expiresAt x) =
                   toMs (createdAt x) + 1000 * ?secs + (atExpires ck - atCreated ck)"
    if ok: "f = None \<or> up \<noteq> None"
  proof (cases f)
    case None
    then have "messagesOf ?s' (chat_id ch) = messagesOf s (chat_id ch) @ [m]"
      using one by (simp add: sendSettle_def messagesOf_def)
    then show ?thesis
      using m by (intro exI [of _ m]) (simp add: toMs_def)
  next
    case (Some fl)
    with ok obtain u where u: "up = Some u" by auto
    let ?m = "m\<lparr>content := up_url u,
                 fileName := Some (strOr (originalName u) (file_name fl)),
                 fileSize := Some (numOr (up_size u) (file_size fl))\<rparr>"
    have "?m \<in> set (messagesOf ?s' (chat_id ch))"
      using one Some u m(2)
      by (simp add: sendSettle_def Let_def messagesOf_def)
    then show ?thesis
      using m by (intro exI [of _ ?m]) (simp add: toMs_def)
  qed
  have pay: "\<exists>p. emitted ?s' = emitted s @ [p] \<and> p_destructTimer p = ?secs"
    if ok: "f = None \<or> up \<noteq> None"
  proof (cases f)
    case None
    then show ?thesis by (simp add: sendSettle_def wsPayload_def)
  next
    case (Some fl)
    with ok obtain u where u: "up = Some u" by auto
    with Some show ?thesis by (simp add: sendSettle_def Let_def wsPayload_def)
  qed
  from eq msg pay
  show "\<exists>s'. sendMessage ck body kind req f up s = Inr s' \<and>
          (f = None \<or> up \<noteq> None \<longrightarrow>
             (\<exists>m. m \<in> set (messagesOf s' (chat_id ch)) \<and>
                   msg_id m = atId ck \<and> createdAt m = Iso (atCreated ck) \<and>
                   expiresAt m = Iso (atExpires ck + 1000 * destructSeconds req) \<and>
                   toMs (expiresAt m) =
                     toMs (createdAt m) + 1000 * destructSeconds req
                       + (atExpires ck - atCreated ck)) \<and>
             (\<exists>p. emitted s' = emitted s @ [p] \<and> p_destructTimer p = destructSeconds req))"
    by blast
qed

lemma sample_ready:
  "selectedChat sampleState = Some chatB" "userId sampleState = Some 1" "(1::int) \<noteq> 0"
  "socketSend sampleState"
  by (simp_all add: sampleState_def initialState_def)

theorem sendMessage_expiry_floor_witness:
  "selectedChat sampleState = Some chatB \<and> userId sampleState = Some 1 \<and> (1::int) \<noteq> 0 \<and>
   socketSend sampleState \<and>
   destructSeconds (Num (- 3)) = 5 \<and>
   validDate (atCreated tickingClock) \<and> validDate (atExpires tickingClock + 1000 * 5) \<and>
   (\<exists>s'. sendMessage tickingClock ''hello'' ''text'' (Num (- 3)) None None sampleState = Inr s' \<and>
      (\<exists>p. emitted s' = emitted sampleState @ [p] \<and> p_destructTimer p = 5)) \<and>
   \<not> validDate (atExpires (clockAt 7000) + 1000 * destructSeconds (Num 10000000000000)) \<and>
   sendMessage (clockAt 7000) ''hello'' ''text'' (Num 10000000000000) None None sampleState
     = Inl RangeError"
proof -
  have d: "destructSeconds (Num (- 3)) = 5"
    by (simp add: destructSeconds_def)
  have v: "validDate (atCreated tickingClock)" "validDate (atExpires tickingClock + 1000 * 5)"
    by (simp_all add: validDate_def maxDateMs_def tickingClock_def)
  have n: "\<not> validDate (atExpires (clockAt 7000) + 1000 * destructSeconds (Num 10000000000000))"
    by (simp add: validDate_def maxDateMs_def clockAt_def destructSeconds_def)
  from sendMessage_expiry_floor [OF sample_ready, of "Num (- 3)" tickingClock "''hello''"
      "''text''" None None] d v
  have a: "\<exists>s'. sendMessage tickingClock ''hello'' ''text'' (Num (- 3)) None None sampleState
             = Inr s' \<and>
      (\<exists>p. emitted s' = emitted sampleState @ [p] \<and> p_destructTimer p = 5)"
    by auto
  from sendMessage_expiry_floor [OF sample_ready, of "Num 10000000000000" "clockAt 7000"
      "''hello''" "''text''" None None] n
  have b: "sendMessage (clockAt 7000) ''hello'' ''text'' (Num 10000000000000) None None
             sampleState = Inl RangeError"
    by blast
  from sample_ready d v a n b show ?thesis by blast
qed

text \<open>
  Claim C8 as stated fails twice. The clock moves by 1 ms between the reading for
  \<open>createdAt\<close> (7000) and the one for \<open>expiresAt\<close> (7001): with 5 seconds requested the
  placeholder expires 5001 ms after its creation time, not 5000. And with 10000000000000
  seconds requested the expiry is past the range of a \<open>Date\<close>: the call throws, there is
  no placeholder and nothing is emitted.
\<close>

theorem sendMessage_expiry_counterexample:
  "destructSeconds (Num 5) = 5 \<and>
   lifetimes (messagesOf
     (storesAfter sampleState
        (sendMessage tickingClock ''hello'' ''text'' (Num 5) None None sampleState)) 11)
     = [5001] \<and>
   sendMessage (clockAt 7000) ''hello'' ''text'' (Num 10000000000000) None None sampleState
     = Inl RangeError"
proof -
  let ?o = "\<lparr>msg_id = 7000, chatId = 11, senderId = 1, receiverId = 3,
             content = ''hello'', messageType = ''text'',
             fileName = None, fileSize = None,
             createdAt = Iso 7000, expiresAt = Iso 12001, expires_at = Undef,
             destructTimer = Some 5\<rparr>"
  have d: "destructSeconds (Num 5) = 5" by (simp add: destructSeconds_def)
  have "optimisticMessage tickingClock 1 chatB ''hello'' ''text'' (destructSeconds (Num 5)) None
          = Inr ?o"
    by (simp add: optimisticMessage_def toISOString_def validDate_def maxDateMs_def
        tickingClock_def d chatB_def bob_def)
  from sendMessage_ready [OF sample_ready this]
  have "messagesOf (storesAfter sampleState
          (sendMessage tickingClock ''hello'' ''text'' (Num 5) None None sampleState)) 11
        = messagesOf (sendOptimistic tickingClock chatB ''hello'' ''text'' ?o sampleState)
            (chat_id chatB)"
    by (simp add: storesAfter_def sendSettle_def messagesOf_def chatB_def)
  also have "\<dots> = [?o]"
    by (simp add: messagesOf_sendOptimistic)
       (simp add: messagesOf_def sampleState_def initialState_def chatB_def)
  finally have l: "lifetimes (messagesOf (storesAfter sampleState
          (sendMessage tickingClock ''hello'' ''text'' (Num 5) None None sampleState)) 11)
        = [5001]"
    by (simp add: toMs_def)
  have "optimisticMessage (clockAt 7000) 1 chatB ''hello'' ''text''
          (destructSeconds (Num 10000000000000)) None = Inl RangeError"
    by (simp add: optimisticMessage_def toISOString_def validDate_def maxDateMs_def
        clockAt_def destructSeconds_def)
  from sendMessage_throws [OF sample_ready this] d l show ?thesis by simp
qed

subsection \<open>Presence after a disconnect\<close>

lemma set_dropIndex: "set (dropIndex i xs) \<subseteq> set xs"
  by (auto simp: dropIndex_def dest: in_set_takeD in_set_dropD)

lemma bumpList_offline:
  assumes "list_all (\<lambda>c. \<not> isOnline (otherUser c)) xs"
  shows "list_all (\<lambda>c. \<not> isOnline (otherUser c)) (bumpList now cid lm xs)"
proof (cases "findIndex cid xs")
  case None
  with assms show ?thesis by (simp add: bumpList_def)
next
  case (Some idx)
  from findIndex_Some [OF Some] have "xs ! idx \<in> set xs" by simp
  with assms set_dropIndex [of idx xs] Some show ?thesis
    by (auto simp: bumpList_def list_all_iff)
qed

lemma appendIfNew_fields [simp]:
  "userId (appendIfNew m s) = userId s"
  "persistentContacts (appendIfNew m s) = persistentContacts s"
  "selectedChat (appendIfNew m s) = selectedChat s"
  "unreadCounts (appendIfNew m s) = unreadCounts s"
  "deletionTimers (appendIfNew m s) = deletionTimers s"
  "cutoffs (appendIfNew m s) = cutoffs s"
  "presence (appendIfNew m s) = presence s"
  "pending (appendIfNew m s) = pending s"
  "nextHandle (appendIfNew m s) = nextHandle s"
  "emitted (appendIfNew m s) = emitted s"
  by (simp_all add: appendIfNew_def Let_def)

lemma bumpUnread_fields [simp]:
  "userId (bumpUnread m s) = userId s"
  "persistentContacts (bumpUnread m s) = persistentContacts s"
  "activeMessages (bumpUnread m s) = activeMessages s"
  "selectedChat (bumpUnread m s) = selectedChat s"
  "deletionTimers (bumpUnread m s) = deletionTimers s"
  "cutoffs (bumpUnread m s) = cutoffs s"
  "presence (bumpUnread m s) = presence s"
  "pending (bumpUnread m s) = pending s"
  "nextHandle (bumpUnread m s) = nextHandle s"
  "emitted (bumpUnread m s) = emitted s"
  by (simp_all add: bumpUnread_def)

lemma typing_fields [simp]:
  "persistentContacts (clearTypingTimer c s) = persistentContacts s"
  "selectedChat (clearTypingTimer c s) = selectedChat s"
  "presence (clearTypingTimer c s) = presence s"
  "persistentContacts (setTypingState c b s) = persistentContacts s"
  "selectedChat (setTypingState c b s) = selectedChat s"
  "presence (setTypingState c b s) = presence s"
  by (simp_all add: clearTypingTimer_def setTypingState_def Let_def split: option.splits)

lemma everyoneOffline_cong:
  "persistentContacts t = persistentContacts s \<Longrightarrow> selectedChat t = selectedChat s \<Longrightarrow>
     everyoneOffline t = everyoneOffline s"
  by (simp add: everyoneOffline_def)

lemma quiet_inbound:
  assumes "presence s = Map.empty" "everyoneOffline s"
    and "keepsPresence (Inbound now ev)"
  shows "presence (handleWSData now ev s) = Map.empty \<and> everyoneOffline (handleWSData now ev s)"
proof (cases ev)
  case (OnlineUsers ids)
  with assms show ?thesis by simp
next
  case (UserStatus uid b)
  with assms show ?thesis by simp
next
  case (ProfileUpdated uid name)
  with assms show ?thesis
    by (auto simp: Let_def everyoneOffline_def list_all_iff setUsername_def split: option.splits)
next
  case (Typing cid sender receiver isTyping)
  with assms show ?thesis
    by (auto simp: Let_def everyoneOffline_def setTimeout_def split: prod.splits)
next
  case (NewMessage m)
  with assms bumpList_offline [of "persistentContacts s"] show ?thesis
    by (simp add: everyoneOffline_def)
qed

lemma sendOptimistic_fields [simp]:
  "presence (sendOptimistic ck ch body kind m s) = presence s"
  "selectedChat (sendOptimistic ck ch body kind m s) = selectedChat s"
  "persistentContacts (sendOptimistic ck ch body kind m s) =
     bumpList (atSchedule ck) (chat_id ch)
       \<lparr>lm_id = atId ck, lm_content = previewContent kind body, lm_createdAt = createdAt m\<rparr>
       (persistentContacts s)"
  by (simp_all add: sendOptimistic_def Let_def)

lemma sendSettle_fields [simp]:
  "presence (sendSettle t uid ch body kind secs f up s) = presence s"
  "selectedChat (sendSettle t uid ch body kind secs f up s) = selectedChat s"
  "persistentContacts (sendSettle t uid ch body kind secs f up s) = persistentContacts s"
  by (simp_all add: sendSettle_def Let_def split: option.splits)

lemma quiet_send:
  assumes "presence s = Map.empty" "everyoneOffline s"
  shows "presence (storesAfter s (sendMessage ck body kind req f up s)) = Map.empty \<and>
         everyoneOffline (storesAfter s (sendMessage ck body kind req f up s))"
  using assms bumpList_offline [of "persistentContacts s"]
    storesAfter_send [of s ck body kind req f up]
  by (auto simp: everyoneOffline_def)

lemma load_fields [simp]:
  "presence (loadActiveMessages now c r s) = presence s"
  "selectedChat (loadActiveMessages now c r s) = selectedChat s"
  "persistentContacts (loadActiveMessages now c r s) = persistentContacts s"
  by (simp_all add: loadActiveMessages_def Let_def split: option.splits)

lemma quiet_select:
  assumes "presence s = Map.empty" "everyoneOffline s" "keepsPresence (Select now chat r)"
  shows "presence (selectChat now chat r s) = Map.empty \<and>
         everyoneOffline (selectChat now chat r s)"
  using assms
  by (cases chat) (auto simp: selectChat_def Let_def everyoneOffline_def list_all_iff)

lemma quiet_delete:
  assumes "presence s = Map.empty" "everyoneOffline s"
  shows "presence (deleteChat now cid s) = Map.empty \<and> everyoneOffline (deleteChat now cid s)"
  using assms
  by (auto simp: deleteChat_def everyoneOffline_def list_all_iff split: option.splits)

lemma quiet_refresh:
  assumes "presence s = Map.empty" "everyoneOffline s"
  shows "presence (fetchContacts sp r s) = Map.empty \<and> everyoneOffline (fetchContacts sp r s)"
  using assms
  by (auto simp: fetchContacts_def Let_def everyoneOffline_def list_all_iff presenceFor_def
      setOnline_def split: option.splits)

lemma quiet_fire:
  assumes "presence s = Map.empty" "everyoneOffline s"
  shows "presence (fireTimeout h s) = Map.empty \<and> everyoneOffline (fireTimeout h s)"
proof (cases "map_of (pending s) h")
  case None
  with assms show ?thesis by (simp add: fireTimeout_def)
next
  case (Some t)
  with assms show ?thesis
    by (cases "cb t") (simp_all add: fireTimeout_def everyoneOffline_def)
qed

lemma setAllOffline_offline:
  "presence (setAllOffline s) = Map.empty \<and> everyoneOffline (setAllOffline s)"
  by (auto simp: setAllOffline_def everyoneOffline_def list_all_iff setOnline_def
      split: option.splits)

lemma quiet_connection:
  assumes "presence s = Map.empty" "everyoneOffline s"
  shows "presence (onConnectionChange b s) = Map.empty \<and> everyoneOffline (onConnectionChange b s)"
  using assms setAllOffline_offline [of s] by (simp add: onConnectionChange_def)

lemma quiet_perform:
  assumes "presence s = Map.empty" "everyoneOffline s" "keepsPresence a"
  shows "presence (perform a s) = Map.empty \<and> everyoneOffline (perform a s)"
proof (cases a)
  case (Inbound now ev)
  with assms quiet_inbound show ?thesis by simp
next
  case (Send ck body kind req f up)
  with assms quiet_send show ?thesis by simp
next
  case (Select now chat r)
  with assms quiet_select show ?thesis by simp
next
  case (Delete now cid)
  with assms quiet_delete show ?thesis by simp
next
  case (Refresh sp r)
  with assms quiet_refresh show ?thesis by simp
next
  case (Fire h)
  with assms quiet_fire show ?thesis by simp
next
  case (Connection b)
  with assms quiet_connection show ?thesis by simp
qed

lemma quiet_run:
  "presence s = Map.empty \<Longrightarrow> everyoneOffline s \<Longrightarrow> list_all keepsPresence acts \<Longrightarrow>
     presence (fold perform acts s) = Map.empty \<and> everyoneOffline (fold perform acts s)"
proof (induction acts arbitrary: s)
  case Nil
  then show ?case by simp
next
  case (Cons a acts)
  from Cons.prems have "presence (perform a s) = Map.empty \<and> everyoneOffline (perform a s)"
    using quiet_perform [of s a] by simp
  with Cons.IH [of "perform a s"] Cons.prems(3) show ?case by simp
qed

text \<open>
  The same for the presence map and the chat summaries alone, through every action that
  is not a presence event: nothing but \<open>selectChat\<close> looks at the flag of a chat object
  it is handed, and that one writes the open chat only.
\<close>

lemma calm_inbound:
  assumes "presence s = Map.empty" "summariesOffline s"
    and "noPresenceEvent (Inbound now ev)"
  shows "presence (handleWSData now ev s) = Map.empty \<and> summariesOffline (handleWSData now ev s)"
proof (cases ev)
  case (OnlineUsers ids)
  with assms show ?thesis by simp
next
  case (UserStatus uid b)
  with assms show ?thesis by simp
next
  case (ProfileUpdated uid name)
  with assms show ?thesis
    by (auto simp: Let_def summariesOffline_def list_all_iff setUsername_def)
next
  case (Typing cid sender receiver isTyping)
  with assms show ?thesis
    by (auto simp: Let_def summariesOffline_def setTimeout_def split: prod.splits)
next
  case (NewMessage m)
  with assms bumpList_offline [of "persistentContacts s"] show ?thesis
    by (simp add: summariesOffline_def)
qed

lemma calm_send:
  assumes "presence s = Map.empty" "summariesOffline s"
  shows "presence (storesAfter s (sendMessage ck body kind req f up s)) = Map.empty \<and>
         summariesOffline (storesAfter s (sendMessage ck body kind req f up s))"
  using assms bumpList_offline [of "persistentContacts s"]
    storesAfter_send [of s ck body kind req f up]
  by (auto simp: summariesOffline_def)

lemma calm_select:
  assumes "presence s = Map.empty" "summariesOffline s"
  shows "presence (selectChat now chat r s) = Map.empty \<and>
         summariesOffline (selectChat now chat r s)"
  using assms
  by (cases chat) (auto simp: selectChat_def Let_def summariesOffline_def list_all_iff)

lemma calm_delete:
  assumes "presence s = Map.empty" "summariesOffline s"
  shows "presence (deleteChat now cid s) = Map.empty \<and> summariesOffline (deleteChat now cid s)"
  using assms by (auto simp: deleteChat_def summariesOffline_def list_all_iff)

lemma calm_refresh:
  assumes "presence s = Map.empty" "summariesOffline s"
  shows "presence (fetchContacts sp r s) = Map.empty \<and> summariesOffline (fetchContacts sp r s)"
  using assms
  by (auto simp: fetchContacts_def Let_def summariesOffline_def list_all_iff presenceFor_def
      setOnline_def split: option.splits)

lemma calm_fire:
  assumes "presence s = Map.empty" "summariesOffline s"
  shows "presence (fireTimeout h s) = Map.empty \<and> summariesOffline (fireTimeout h s)"
proof (cases "map_of (pending s) h")
  case None
  with assms show ?thesis by (simp add: fireTimeout_def)
next
  case (Some t)
  with assms show ?thesis
    by (cases "cb t") (simp_all add: fireTimeout_def summariesOffline_def)
qed

lemma calm_connection:
  assumes "presence s = Map.empty" "summariesOffline s"
  shows "presence (onConnectionChange b s) = Map.empty \<and> summariesOffline (onConnectionChange b s)"
  using assms
  by (auto simp: onConnectionChange_def setAllOffline_def summariesOffline_def list_all_iff
      setOnline_def)

lemma calm_perform:
  assumes "presence s = Map.empty" "summariesOffline s" "noPresenceEvent a"
  shows "presence (perform a s) = Map.empty \<and> summariesOffline (perform a s)"
proof (cases a)
  case (Inbound now ev)
  with assms calm_inbound show ?thesis by simp
next
  case (Send ck body kind req f up)
  with assms calm_send show ?thesis by simp
next
  case (Select now chat r)
  with assms calm_select show ?thesis by simp
next
  case (Delete now cid)
  with assms calm_delete show ?thesis by simp
next
  case (Refresh sp r)
  with assms calm_refresh show ?thesis by simp
next
  case (Fire h)
  with assms calm_fire show ?thesis by simp
next
  case (Connection b)
  with assms calm_connection show ?thesis by simp
qed

lemma calm_run:
  "presence s = Map.empty \<Longrightarrow> summariesOffline s \<Longrightarrow> list_all noPresenceEvent acts \<Longrightarrow>
     presence (fold perform acts s) = Map.empty \<and> summariesOffline (fold perform acts s)"
proof (induction acts arbitrary: s)
  case Nil
  then show ?case by simp
next
  case (Cons a acts)
  from Cons.prems have "presence (perform a s) = Map.empty \<and> summariesOffline (perform a s)"
    using calm_perform [of s a] by simp
  with Cons.IH [of "perform a s"] Cons.prems(3) show ?case by simp
qed

lemma onConnectionChange_False:
  "onConnectionChange False s =
     s\<lparr>presence := Map.empty,
       persistentContacts :=
         map (\<lambda>c. c\<lparr>otherUser := (otherUser c)\<lparr>isOnline := False\<rparr>\<rparr>) (persistentContacts s),
       selectedChat :=
         map_option (\<lambda>c. c\<lparr>otherUser := (otherUser c)\<lparr>isOnline := False\<rparr>\<rparr>) (selectedChat s)\<rparr>"
  by (simp add: onConnectionChange_def setAllOffline_def setOnline_def [abs_def])

text \<open>
  Claim C7, as amended. When \<open>socket.isConnected\<close> turns false, the presence map is
  emptied and the other participant of every chat summary and of the open chat is set to
  offline; the summaries are the same ones in the same order and nothing else changes.
  Through every run of actions none of which is a presence event (\<open>online_users\<close>,
  \<open>user_status\<close>) the presence map stays empty, every user id reads offline and every
  chat summary reads offline. The open chat stays offline as well when, in addition, each
  chat handed to \<open>selectChat\<close> reads offline: \<open>selectChat\<close> stores the object it is
  given. A user id that is not in the presence map reads offline in every state.
\<close>

theorem disconnect_all_offline:
  "onConnectionChange False s =
     s\<lparr>presence := Map.empty,
       persistentContacts :=
         map (\<lambda>c. c\<lparr>otherUser := (otherUser c)\<lparr>isOnline := False\<rparr>\<rparr>) (persistentContacts s),
       selectedChat :=
         map_option (\<lambda>c. c\<lparr>otherUser := (otherUser c)\<lparr>isOnline := False\<rparr>\<rparr>) (selectedChat s)\<rparr> \<and>
   presence (onConnectionChange False s) = Map.empty \<and>
   everyoneOffline (onConnectionChange False s) \<and>
   (\<forall>acts. list_all noPresenceEvent acts \<longrightarrow>
      presence (fold perform acts (onConnectionChange False s)) = Map.empty \<and>
      (\<forall>uid. \<not> presenceFor (fold perform acts (onConnectionChange False s)) uid) \<and>
      summariesOffline (fold perform acts (onConnectionChange False s))) \<and>
   (\<forall>acts. list_all keepsPresence acts \<longrightarrow>
      everyoneOffline (fold perform acts (onConnectionChange False s))) \<and>
   (\<forall>st uid. presence st uid = None \<longrightarrow> \<not> presenceFor st uid)"
proof -
  let ?d = "onConnectionChange False s"
  have a: "presence ?d = Map.empty" "everyoneOffline ?d"
    using setAllOffline_offline [of s] by (simp_all add: onConnectionChange_def)
  then have so: "summariesOffline ?d"
    by (simp add: everyoneOffline_def summariesOffline_def)
  have u: "\<forall>st uid. presence st uid = None \<longrightarrow> \<not> presenceFor st uid"
    by (simp add: presenceFor_def)
  have c: "presence (fold perform acts ?d) = Map.empty \<and>
           (\<forall>uid. \<not> presenceFor (fold perform acts ?d) uid) \<and>
           summariesOffline (fold perform acts ?d)"
    if "list_all noPresenceEvent acts" for acts
    using calm_run [OF a(1) so that] u by simp
  have q: "everyoneOffline (fold perform acts ?d)" if "list_all keepsPresence acts" for acts
    using quiet_run [OF a that] by simp
  from onConnectionChange_False [of s] a c q u show ?thesis by blast
qed

theorem disconnect_all_offline_witness:
  "list_all noPresenceEvent
     [Refresh False (Some [chatA, chatB]), Select 1000 (Some chatA) None, Fire 1] \<and>
   summariesOffline
     (fold perform
        [Refresh False (Some [chatA, chatB]), Select 1000 (Some chatA) None, Fire 1]
        (onConnectionChange False sampleState)) \<and>
   list_all keepsPresence
     [Refresh False (Some [chatA, chatB]), Inbound 1000 (ProfileUpdated 2 ''al''), Fire 1] \<and>
   everyoneOffline
     (fold perform
        [Refresh False (Some [chatA, chatB]), Inbound 1000 (ProfileUpdated 2 ''al''), Fire 1]
        (onConnectionChange False sampleState)) \<and>
   presence sampleState 3 = None \<and> \<not> presenceFor sampleState 3"
proof -
  have k: "list_all noPresenceEvent
     [Refresh False (Some [chatA, chatB]), Select 1000 (Some chatA) None, Fire 1]"
    "list_all keepsPresence
     [Refresh False (Some [chatA, chatB]), Inbound 1000 (ProfileUpdated 2 ''al''), Fire 1]"
    by simp_all
  have n: "presence sampleState 3 = None"
    by (simp add: sampleState_def initialState_def)
  from disconnect_all_offline [of sampleState] k n show ?thesis by blast
qed

text \<open>
  Claim C7 as stated fails on "stays offline until a fresh presence event arrives": after
  the disconnect the user opens chat A with a chat object that still reads online (the one
  from before the disconnect). No presence event has arrived, the presence map is empty,
  and the open chat reads online.
\<close>

theorem open_chat_online_counterexample:
  "isOnline (otherUser chatA) \<and>
   noPresenceEvent (Select 1000 (Some chatA) None) \<and>
   everyoneOffline (onConnectionChange False sampleState) \<and>
   openChatOnline (perform (Select 1000 (Some chatA) None) (onConnectionChange False sampleState)) \<and>
   \<not> everyoneOffline
       (perform (Select 1000 (Some chatA) None) (onConnectionChange False sampleState))"
  by (simp add: onConnectionChange_def setAllOffline_def sampleState_def initialState_def
      everyoneOffline_def openChatOnline_def selectChat_def truthy_id_def Let_def chatA_def
      chatB_def alice_def bob_def setOnline_def loadActiveMessages_def)

subsection \<open>A failed upload\<close>


lemma messagesOf_upd [simp]:
  "messagesOf (s\<lparr>activeMessages := (activeMessages s)(c \<mapsto> ms)\<rparr>) k =
     (if k = c then ms else messagesOf s k)"
  by (simp add: messagesOf_def)

lemma sendSettle_fail:
  "sendSettle t uid ch body kind secs (Some fl) None s =
     s\<lparr>activeMessages :=
         (activeMessages s)
           (chat_id ch \<mapsto> filter (\<lambda>m. msg_id m \<noteq> t) (messagesOf s (chat_id ch)))\<rparr>"
  by (simp add: sendSettle_def)

text \<open>
  Claim C3, as amended. When \<open>sendMessage\<close> goes ahead with a file and the upload fails,
  afterwards no message with the placeholder's id is in the chat's sequence (the sequence
  is the one from before the send without that id), and nothing was emitted on the socket.
  The chat list is not put back: it stays as the optimistic bump left it, the open chat
  first with the placeholder's preview. (The upload is reached when the placeholder's two
  dates are in the range of a \<open>Date\<close>; otherwise the call has thrown before.)
\<close>

theorem upload_failure_rollback:
  assumes r: "selectedChat s = Some ch" "userId s = Some uid" "uid \<noteq> 0" "socketSend s"
  shows "(validDate (atCreated ck) \<and> validDate (atExpires ck + 1000 * destructSeconds req) \<longrightarrow>
          (\<exists>s'. sendMessage ck body kind req (Some fl) None s = Inr s' \<and>
             messagesOf s' (chat_id ch) =
               filter (\<lambda>m. msg_id m \<noteq> atId ck) (messagesOf s (chat_id ch)) \<and>
             list_all (\<lambda>m. msg_id m \<noteq> atId ck) (messagesOf s' (chat_id ch)) \<and>
             emitted s' = emitted s \<and>
             persistentContacts s' =
               bumpList (atSchedule ck) (chat_id ch)
                 \<lparr>lm_id = atId ck, lm_content = previewContent kind body,
                  lm_createdAt = Iso (atCreated ck)\<rparr>
                 (persistentContacts s))) \<and>
         (\<not> (validDate (atCreated ck) \<and> validDate (atExpires ck + 1000 * destructSeconds req)) \<longrightarrow>
            sendMessage ck body kind req (Some fl) None s = Inl RangeError)"
proof (intro conjI impI)
  let ?secs = "destructSeconds req"
  assume "validDate (atCreated ck) \<and> validDate (atExpires ck + 1000 * ?secs)"
  then have "validDate (atCreated ck)" "validDate (atExpires ck + ?secs * 1000)"
    by (simp_all add: mult.commute)
  from optimisticMessage_valid [OF this, of uid ch body kind "Some fl"]
  obtain opt where opt: "optimisticMessage ck uid ch body kind ?secs (Some fl) = Inr opt"
      "msg_id opt = atId ck" "createdAt opt = Iso (atCreated ck)"
    by auto
  let ?s' = "sendSettle (atId ck) uid ch body kind ?secs (Some fl) None
               (sendOptimistic ck ch body kind opt s)"
  have eq: "sendMessage ck body kind req (Some fl) None s = Inr ?s'"
    by (rule sendMessage_ready [OF r opt(1)])
  have m: "messagesOf ?s' (chat_id ch) =
             filter (\<lambda>m. msg_id m \<noteq> atId ck) (messagesOf s (chat_id ch))"
    by (simp add: sendSettle_fail messagesOf_sendOptimistic opt(2))
  have l: "list_all (\<lambda>m. msg_id m \<noteq> atId ck) (messagesOf ?s' (chat_id ch))"
    unfolding m by (simp add: list_all_iff)
  have e: "emitted ?s' = emitted s"
    by (simp add: sendSettle_fail)
  have c: "persistentContacts ?s' =
           bumpList (atSchedule ck) (chat_id ch)
             \<lparr>lm_id = atId ck, lm_content = previewContent kind body,
              lm_createdAt = Iso (atCreated ck)\<rparr>
             (persistentContacts s)"
    by (simp add: sendSettle_fail opt(3))
  from eq m l e c
  show "\<exists>s'. sendMessage ck body kind req (Some fl) None s = Inr s' \<and>
             messagesOf s' (chat_id ch) =
               filter (\<lambda>m. msg_id m \<noteq> atId ck) (messagesOf s (chat_id ch)) \<and>
             list_all (\<lambda>m. msg_id m \<noteq> atId ck) (messagesOf s' (chat_id ch)) \<and>
             emitted s' = emitted s \<and>
             persistentContacts s' =
               bumpList (atSchedule ck) (chat_id ch)
                 \<lparr>lm_id = atId ck, lm_content = previewContent kind body,
                  lm_createdAt = Iso (atCreated ck)\<rparr>
                 (persistentContacts s)"
    by blast
next
  assume "\<not> (validDate (atCreated ck) \<and> validDate (atExpires ck + 1000 * destructSeconds req))"
  then have "optimisticMessage ck uid ch body kind (destructSeconds req) (Some fl)
               = Inl RangeError"
    by (intro optimisticMessage_throws) (simp add: mult.commute)
  then show "sendMessage ck body kind req (Some fl) None s = Inl RangeError"
    by (rule sendMessage_throws [OF r])
qed

theorem upload_failure_rollback_witness:
  "selectedChat sampleState = Some chatB \<and> userId sampleState = Some 1 \<and> (1::int) \<noteq> 0 \<and>
   socketSend sampleState \<and>
   validDate (atCreated (clockAt 8000)) \<and>
   validDate (atExpires (clockAt 8000) + 1000 * destructSeconds (Num 60)) \<and>
   (\<exists>s'. sendMessage (clockAt 8000) ''doc'' ''file'' (Num 60) (Some sampleFile) None sampleState
            = Inr s' \<and>
          messagesOf s' 11 = [] \<and> emitted s' = [])"
proof -
  have e: "messagesOf sampleState (chat_id chatB) = []" "emitted sampleState = []"
      "chat_id chatB = 11"
    by (simp_all add: sampleState_def initialState_def messagesOf_def chatB_def)
  have v: "validDate (atCreated (clockAt 8000))"
    "validDate (atExpires (clockAt 8000) + 1000 * destructSeconds (Num 60))"
    by (simp_all add: validDate_def maxDateMs_def clockAt_def destructSeconds_def)
  from upload_failure_rollback [OF sample_ready, of "clockAt 8000" "Num 60" "''doc''" "''file''"
      sampleFile] v
  obtain s' where "sendMessage (clockAt 8000) ''doc'' ''file'' (Num 60) (Some sampleFile) None
                     sampleState = Inr s'"
    "messagesOf s' (chat_id chatB) =
       filter (\<lambda>m. msg_id m \<noteq> atId (clockAt 8000)) (messagesOf sampleState (chat_id chatB))"
    "emitted s' = emitted sampleState"
    by blast
  with e have "\<exists>s'. sendMessage (clockAt 8000) ''doc'' ''file'' (Num 60) (Some sampleFile) None
                       sampleState = Inr s' \<and> messagesOf s' 11 = [] \<and> emitted s' = []"
    by simp
  with sample_ready v show ?thesis by blast
qed

lemma send_image_sample:
  "sendMessage (clockAt 7000) [] ''image'' (Num 30) (Some sampleFile) None sampleState =
     Inr (sendSettle 7000 1 chatB [] ''image'' 30 (Some sampleFile) None
            (sendOptimistic (clockAt 7000) chatB [] ''image''
               \<lparr>msg_id = 7000, chatId = 11, senderId = 1, receiverId = 3,
                content = ''blob:1'', messageType = ''image'',
                fileName = Some ''cat.png'', fileSize = Some 2048,
                createdAt = Iso 7000, expiresAt = Iso 37000, expires_at = Undef,
                destructTimer = Some 30\<rparr>
               sampleState))"
proof -
  have "optimisticMessage (clockAt 7000) 1 chatB [] ''image'' (destructSeconds (Num 30))
          (Some sampleFile) =
        Inr \<lparr>msg_id = 7000, chatId = 11, senderId = 1, receiverId = 3,
             content = ''blob:1'', messageType = ''image'',
             fileName = Some ''cat.png'', fileSize = Some 2048,
             createdAt = Iso 7000, expiresAt = Iso 37000, expires_at = Undef,
             destructTimer = Some 30\<rparr>"
    by (simp add: optimisticMessage_def toISOString_def validDate_def maxDateMs_def clockAt_def
        destructSeconds_def chatB_def bob_def sampleFile_def)
  from sendMessage_ready [OF sample_ready this]
  show ?thesis by (simp add: clockAt_def destructSeconds_def)
qed

text \<open>
  Claim C3 as stated fails: user 1 has chat B open, second in the list; an image is sent
  and its upload fails. The chat list does not return to its prior state: chat B is first
  now and carries the placeholder's preview.
\<close>

theorem upload_failure_chat_list_counterexample:
  "persistentContacts sampleState = [chatA, chatB] \<and>
   persistentContacts
     (storesAfter sampleState
        (sendMessage (clockAt 7000) [] ''image'' (Num 30) (Some sampleFile) None sampleState))
     = [chatB\<lparr>lastMessage :=
                 Some \<lparr>lm_id = 7000, lm_content = photoLabel, lm_createdAt = Iso 7000\<rparr>,
               lastMessageTimestamp := Iso 7000\<rparr>,
        chatA] \<and>
   persistentContacts
     (storesAfter sampleState
        (sendMessage (clockAt 7000) [] ''image'' (Num 30) (Some sampleFile) None sampleState))
     \<noteq> persistentContacts sampleState"
proof -
  have a: "persistentContacts sampleState = [chatA, chatB]"
    by (simp add: sampleState_def initialState_def)
  have "persistentContacts
     (storesAfter sampleState
        (sendMessage (clockAt 7000) [] ''image'' (Num 30) (Some sampleFile) None sampleState))
     = bumpList 7000 11
         \<lparr>lm_id = 7000, lm_content = photoLabel, lm_createdAt = Iso 7000\<rparr> [chatA, chatB]"
    unfolding send_image_sample
    by (simp add: storesAfter_def a clockAt_def chatB_def previewContent_def)
  also have "\<dots> = [chatB\<lparr>lastMessage :=
                 Some \<lparr>lm_id = 7000, lm_content = photoLabel, lm_createdAt = Iso 7000\<rparr>,
               lastMessageTimestamp := Iso 7000\<rparr>,
        chatA]"
    by (simp add: bumpList_def chatA_def chatB_def dropIndex_def js_or_def)
  finally show ?thesis
    using a by (simp add: chatA_def chatB_def)
qed

subsection \<open>The order of the chat list\<close>


lemma after_iff:
  "getTime (sortTime x) \<noteq> None \<Longrightarrow> getTime (sortTime y) \<noteq> None \<Longrightarrow>
     (case compareContacts x y of None \<Rightarrow> False | Some v \<Rightarrow> v > 0)
       = (codeSortKey x < codeSortKey y)"
  by (auto simp: compareContacts_def codeSortKey_def toMs_def split: option.splits)

lemma descendingBy_iff:
  "descendingBy key xs = sorted_wrt (\<lambda>a b. key b \<le> key a) xs"
  by (induction xs) (auto simp: list_all_iff)

lemma set_insertBy [simp]: "set (insertBy cmp x xs) = insert x (set xs)"
  by (induction xs) auto

lemma mset_insertBy [simp]: "mset (insertBy cmp x xs) = add_mset x (mset xs)"
  by (induction xs) auto

lemma mset_sortBy [simp]: "mset (sortBy cmp xs) = mset xs"
  by (induction xs) (simp_all add: sortBy_def)

lemma set_sortBy [simp]: "set (sortBy cmp xs) = set xs"
  by (induction xs) (simp_all add: sortBy_def)

lemma insertBy_descending:
  assumes "getTime (sortTime x) \<noteq> None" "\<forall>y \<in> set xs. getTime (sortTime y) \<noteq> None"
    and "descendingBy codeSortKey xs"
  shows "descendingBy codeSortKey (insertBy compareContacts x xs)"
  using assms
proof (induction xs)
  case Nil
  then show ?case by simp
next
  case (Cons y ys)
  then show ?case
    by (auto simp: after_iff list_all_iff)
qed

lemma sortBy_descending:
  "\<forall>y \<in> set xs. getTime (sortTime y) \<noteq> None \<Longrightarrow>
     descendingBy codeSortKey (sortBy compareContacts xs)"
proof (induction xs)
  case Nil
  then show ?case by (simp add: sortBy_def)
next
  case (Cons x xs)
  then have d: "descendingBy codeSortKey (sortBy compareContacts xs)" by simp
  from Cons.prems have "getTime (sortTime x) \<noteq> None"
    "\<forall>y \<in> set (sortBy compareContacts xs). getTime (sortTime y) \<noteq> None"
    by simp_all
  from insertBy_descending [OF this d]
  show ?case by (simp add: sortBy_def)
qed

lemma descendingBy_map:
  "(\<And>x. key (f x) = key x) \<Longrightarrow> descendingBy key (map f xs) = descendingBy key xs"
  by (induction xs) (auto simp: list_all_iff)

lemma sortTime_stamp [simp]: "sortTime (stampUnread uid c) = sortTime c"
  by (simp add: sortTime_def stampUnread_def)

lemma sortTime_setOnline [simp]: "sortTime (setOnline b c) = sortTime c"
  by (simp add: sortTime_def setOnline_def)

lemma chat_id_stamp [simp]: "chat_id (stampUnread uid c) = chat_id c"
  by (simp add: stampUnread_def)

lemma chat_id_setOnline [simp]: "chat_id (setOnline b c) = chat_id c"
  by (simp add: setOnline_def)

lemma persistentContacts_fetch:
  "userId s = Some uid \<Longrightarrow> uid \<noteq> 0 \<Longrightarrow>
     persistentContacts (fetchContacts sp (Some cs) s) =
       map (\<lambda>c. setOnline (presenceFor s (user_id (otherUser c))) c)
           (sortBy compareContacts (map (stampUnread uid) cs))"
  by (simp add: fetchContacts_def Let_def presenceFor_def)

text \<open>
  Claim C5, as amended. After a load by a logged-in user, with a response in which the
  time the comparator reads from each chat parses as a date, the chat list holds the
  chats of the response in descending order of that time, which is the first one present
  of the last message's timestamp, the chat's last-activity timestamp and the chat's
  creation timestamp (not the latest of the three).
\<close>

theorem fetchContacts_sorted:
  assumes u: "userId s = Some uid" "uid \<noteq> 0"
    and p: "\<forall>c \<in> set cs. getTime (sortTime c) \<noteq> None"
  shows "descendingBy codeSortKey (persistentContacts (fetchContacts sp (Some cs) s)) \<and>
         mset (map chat_id (persistentContacts (fetchContacts sp (Some cs) s)))
           = mset (map chat_id cs)"
proof -
  have "descendingBy codeSortKey (sortBy compareContacts (map (stampUnread uid) cs))"
    using p by (intro sortBy_descending) simp
  then have a: "descendingBy codeSortKey (persistentContacts (fetchContacts sp (Some cs) s))"
    by (simp add: persistentContacts_fetch [OF u] descendingBy_map codeSortKey_def)
  have "mset (map chat_id (persistentContacts (fetchContacts sp (Some cs) s)))
          = mset (map chat_id cs)"
    by (simp add: persistentContacts_fetch [OF u] multiset.map_comp o_def)
  with a show ?thesis by blast
qed

theorem fetchContacts_sorted_witness:
  "userId sampleState = Some 1 \<and> (1::int) \<noteq> 0 \<and>
   getTime (sortTime chatX) = Some 10 \<and> getTime (sortTime chatY) = Some 50 \<and>
   descendingBy codeSortKey
     (persistentContacts (fetchContacts False (Some [chatX, chatY]) sampleState))"
proof -
  have u: "userId sampleState = Some 1" "(1::int) \<noteq> 0"
    by (simp_all add: sampleState_def initialState_def)
  have g: "getTime (sortTime chatX) = Some 10" "getTime (sortTime chatY) = Some 50"
    by (simp_all add: sortTime_def js_or_def chatX_def chatY_def)
  then have p: "\<forall>c \<in> set [chatX, chatY]. getTime (sortTime c) \<noteq> None" by simp
  from fetchContacts_sorted [OF u p, of False] u g show ?thesis by blast
qed

text \<open>
  Claim C5 as stated fails: chat X has a last message at 10 and a last-activity stamp of
  100, chat Y has both at 50. By the latest of its stamps X (100) comes before Y (50); the
  comparator reads 10 for X and puts Y first.
\<close>

theorem fetchContacts_max_key_counterexample:
  "\<not> descendingBy specSortKey
       (persistentContacts (fetchContacts False (Some [chatX, chatY]) sampleState))"
  by (simp add: fetchContacts_def sampleState_def initialState_def Let_def sortBy_def
      compareContacts_def sortTime_def js_or_def chatX_def chatY_def stampUnread_def
      specSortKey_def toMs_def setOnline_def)

subsection \<open>The timer invariant\<close>

lemma timersOk_cong:
  "pending t = pending s \<Longrightarrow> nextHandle t = nextHandle s \<Longrightarrow>
   deletionTimers t = deletionTimers s \<Longrightarrow> timersOk t = timersOk s"
  by (simp add: timersOk_def timerEntryOk_def [abs_def])

lemma expiryTimersFor_cong:
  "pending t = pending s \<Longrightarrow> expiryTimersFor t i = expiryTimersFor s i"
  by (simp add: expiryTimersFor_def)

lemma timersOk_initial: "timersOk (initialState uid sock)"
  by (simp add: timersOk_def initialState_def)

lemma timersOk_clearTimeout:
  "timersOk s \<Longrightarrow> timersOk (clearTimeout h s)"
  by (auto simp: timersOk_def timerEntryOk_def list_all_iff distinct_map_filter)

lemma pending_clearTimer:
  "pending (clearTimer i s) =
     (case deletionTimers s i of
        None \<Rightarrow> pending s
      | Some t \<Rightarrow> if t \<noteq> 0 then filter (\<lambda>p. fst p \<noteq> t) (pending s) else pending s)"
  by (simp add: clearTimer_def Let_def split: option.splits)

lemma set_pending_clearTimer:
  "set (pending (clearTimer i s)) \<subseteq> set (pending s)"
  by (auto simp: pending_clearTimer split: option.splits if_splits)

lemma registered_delete:
  "registered timers h f \<Longrightarrow> \<not> deletesId i f \<Longrightarrow> registered (timers(i := None)) h f"
  by (cases f) auto

lemma deletesId_registered:
  "deletesId i f \<Longrightarrow> registered timers h f \<Longrightarrow> timers i = Some h"
  by (cases f) auto

lemma no_timer_after_clearTimer:
  assumes "timersOk s"
  shows "expiryTimersFor (clearTimer i s) i = []"
proof -
  have "\<not> isExpiryTimerFor i p" if "p \<in> set (pending (clearTimer i s))" for p
  proof
    assume x: "isExpiryTimerFor i p"
    from that set_pending_clearTimer have p: "p \<in> set (pending s)" by blast
    with assms have ok: "timerEntryOk s p" by (simp add: timersOk_def list_all_iff)
    with x have "deletionTimers s i = Some (fst p)" "0 < fst p"
      by (auto simp: timerEntryOk_def isExpiryTimerFor_def dest: deletesId_registered)
    with that show False by (simp add: pending_clearTimer)
  qed
  then show ?thesis by (simp add: expiryTimersFor_def filter_empty_conv)
qed

lemma timersOk_clearTimer:
  assumes "timersOk s"
  shows "timersOk (clearTimer i s)"
proof -
  have d: "distinct (map fst (pending (clearTimer i s)))"
    using assms
    by (auto simp: timersOk_def pending_clearTimer distinct_map_filter split: option.splits)
  have e: "timerEntryOk (clearTimer i s) p" if "p \<in> set (pending (clearTimer i s))" for p
  proof -
    from that set_pending_clearTimer have p: "p \<in> set (pending s)" by blast
    with assms have ok: "timerEntryOk s p" by (simp add: timersOk_def list_all_iff)
    from that no_timer_after_clearTimer [OF assms, of i] have "\<not> isExpiryTimerFor i p"
      by (simp add: expiryTimersFor_def filter_empty_conv)
    with ok show ?thesis
      by (simp add: timerEntryOk_def isExpiryTimerFor_def registered_delete)
  qed
  have m: "h < nextHandle (clearTimer i s) \<and>
         list_all (\<lambda>p. fst p = h \<longrightarrow> isExpiryTimerFor j p) (pending (clearTimer i s))"
    if "deletionTimers (clearTimer i s) j = Some h" for j h
  proof -
    from that have "deletionTimers s j = Some h" by (simp split: if_splits)
    with assms have "h < nextHandle s"
      "list_all (\<lambda>p. fst p = h \<longrightarrow> isExpiryTimerFor j p) (pending s)"
      by (simp_all add: timersOk_def)
    with set_pending_clearTimer [of i s] show ?thesis
      by (auto simp: list_all_iff)
  qed
  from d e m assms show ?thesis by (simp add: timersOk_def list_all_iff)
qed

lemma schedule_invalid:
  "toMs (js_or (expiresAt m) (expires_at m)) = 0 \<Longrightarrow> scheduleMessageDeletion now m s = s"
  by (simp add: scheduleMessageDeletion_def)

lemma schedule_valid:
  "toMs (js_or (expiresAt m) (expires_at m)) \<noteq> 0 \<Longrightarrow>
   scheduleMessageDeletion now m s =
     (clearTimer (msg_id m) s)
       \<lparr>pending := pending (clearTimer (msg_id m) s) @
           [(nextHandle s,
             \<lparr>delay = max (toMs (js_or (expiresAt m) (expires_at m)) - now) 200,
              cb = DeleteMessage (chatId m) (msg_id m)\<rparr>)],
        nextHandle := Suc (nextHandle s),
        deletionTimers := (deletionTimers s)(msg_id m \<mapsto> nextHandle s)\<rparr>"
  by (simp add: scheduleMessageDeletion_def Let_def setTimeout_def)

lemma registered_update:
  "registered timers h f \<Longrightarrow> \<not> deletesId i f \<Longrightarrow> registered (timers(i \<mapsto> k)) h f"
  by (cases f) auto

lemma timersOk_schedule:
  assumes "timersOk s"
  shows "timersOk (scheduleMessageDeletion now m s)"
proof (cases "toMs (js_or (expiresAt m) (expires_at m)) = 0")
  case True
  with assms show ?thesis by (simp add: schedule_invalid)
next
  case False
  let ?i = "msg_id m"
  let ?c = "clearTimer ?i s"
  let ?n = "nextHandle s"
  have ok: "timersOk ?c" by (rule timersOk_clearTimer [OF assms])
  have none: "\<not> isExpiryTimerFor ?i p" if "p \<in> set (pending ?c)" for p
    using that no_timer_after_clearTimer [OF assms, of ?i]
    by (simp add: expiryTimersFor_def filter_empty_conv)
  have lt: "fst p < ?n" "0 < fst p" if "p \<in> set (pending ?c)" for p
    using that ok by (simp_all add: timersOk_def list_all_iff timerEntryOk_def)
  have fresh: "?n \<notin> fst ` set (pending ?c)"
    using lt(1) by fastforce
  then have d: "distinct (map fst (pending ?c) @ [?n])"
    using ok by (simp add: timersOk_def)
  have e: "registered ((deletionTimers s)(?i \<mapsto> ?n)) (fst p) (cb (snd p))"
    if "p \<in> set (pending ?c)" for p
  proof -
    from that ok have "registered ((deletionTimers s)(?i := None)) (fst p) (cb (snd p))"
      by (simp add: timersOk_def list_all_iff timerEntryOk_def)
    moreover from none [OF that] have n: "\<not> deletesId ?i (cb (snd p))"
      by (simp add: isExpiryTimerFor_def)
    ultimately have "registered (((deletionTimers s)(?i := None))(?i \<mapsto> ?n)) (fst p) (cb (snd p))"
      by (rule registered_update)
    then show ?thesis by simp
  qed
  have m: "h < Suc ?n \<and> (\<forall>p \<in> set (pending ?c). fst p = h \<longrightarrow> isExpiryTimerFor j p) \<and>
           (?n = h \<longrightarrow> j = ?i)"
    if "((deletionTimers s)(?i \<mapsto> ?n)) j = Some h" for j h
  proof (cases "j = ?i")
    case True
    with that have "h = ?n" by simp
    with fresh True show ?thesis by force
  next
    case False
    with that have "deletionTimers ?c j = Some h" by simp
    with ok have "h < ?n" "\<forall>p \<in> set (pending ?c). fst p = h \<longrightarrow> isExpiryTimerFor j p"
      by (auto simp: timersOk_def list_all_iff)
    then show ?thesis by auto
  qed
  let ?t = "\<lparr>delay = max (toMs (js_or (expiresAt m) (expires_at m)) - now) 200,
              cb = DeleteMessage (chatId m) (msg_id m)\<rparr>"
  let ?s' = "scheduleMessageDeletion now m s"
  have P: "pending ?s' = pending ?c @ [(?n, ?t)]"
    and N: "nextHandle ?s' = Suc ?n"
    and D: "deletionTimers ?s' = (deletionTimers s)(?i \<mapsto> ?n)"
    by (simp_all add: schedule_valid [OF False])
  have n0: "0 < ?n"
    using assms by (simp add: timersOk_def)
  have c1: "distinct (map fst (pending ?s'))"
    using d by (simp add: P)
  have c2: "timerEntryOk ?s' p" if "p \<in> set (pending ?s')" for p
  proof (cases "p = (?n, ?t)")
    case True
    then show ?thesis
      using n0 by (simp add: timerEntryOk_def N D)
  next
    case False
    with that have "p \<in> set (pending ?c)" by (simp add: P)
    with e lt show ?thesis by (simp add: timerEntryOk_def N D less_Suc_eq)
  qed
  have c3: "h < nextHandle ?s' \<and> list_all (\<lambda>p. fst p = h \<longrightarrow> isExpiryTimerFor j p) (pending ?s')"
    if "deletionTimers ?s' j = Some h" for j h
  proof -
    from that have "((deletionTimers s)(?i \<mapsto> ?n)) j = Some h" by (simp add: D)
    from m [OF this] show ?thesis
      by (auto simp: N P list_all_iff isExpiryTimerFor_def)
  qed
  from c1 c2 c3 show ?thesis
    unfolding timersOk_def list_all_iff by (simp add: N)
qed

lemma expiryTimersFor_schedule:
  assumes "timersOk s" "toMs (js_or (expiresAt m) (expires_at m)) \<noteq> 0"
  shows "expiryTimersFor (scheduleMessageDeletion now m s) (msg_id m) =
           [(nextHandle s,
             \<lparr>delay = max (toMs (js_or (expiresAt m) (expires_at m)) - now) 200,
              cb = DeleteMessage (chatId m) (msg_id m)\<rparr>)]"
  using no_timer_after_clearTimer [OF assms(1), of "msg_id m"]
  by (simp add: schedule_valid [OF assms(2)] expiryTimersFor_def isExpiryTimerFor_def)

lemma same_key_short:
  assumes "distinct (map f xs)" "\<And>p q. p \<in> set xs \<Longrightarrow> q \<in> set xs \<Longrightarrow> f p = f q"
  shows "length xs \<le> 1"
proof (cases xs)
  case Nil
  then show ?thesis by simp
next
  case (Cons a as)
  show ?thesis
  proof (cases as)
    case Nil
    with Cons show ?thesis by simp
  next
    case (Cons b bs)
    with \<open>xs = a # as\<close> assms(2) [of a b] have "f a = f b" by simp
    with Cons \<open>xs = a # as\<close> assms(1) show ?thesis by simp
  qed
qed

lemma at_most_one_timer:
  assumes "timersOk s"
  shows "length (expiryTimersFor s i) \<le> 1"
proof (rule same_key_short [where f = fst])
  show "distinct (map fst (expiryTimersFor s i))"
    using assms by (simp add: timersOk_def expiryTimersFor_def distinct_map_filter)
next
  fix p q
  assume "p \<in> set (expiryTimersFor s i)" "q \<in> set (expiryTimersFor s i)"
  with assms have "timerEntryOk s p" "timerEntryOk s q" "isExpiryTimerFor i p"
      "isExpiryTimerFor i q"
    by (simp_all add: expiryTimersFor_def timersOk_def list_all_iff)
  then have "deletionTimers s i = Some (fst p)" "deletionTimers s i = Some (fst q)"
    by (auto simp: timerEntryOk_def isExpiryTimerFor_def dest: deletesId_registered)
  then show "fst p = fst q" by simp
qed


lemma timersOk_typing_clear:
  "timersOk s \<Longrightarrow> timersOk (clearTypingTimer c s)"
proof -
  assume a: "timersOk s"
  have "timersOk (case typingTimeouts s c of None \<Rightarrow> s
                  | Some t \<Rightarrow> if t \<noteq> 0 then clearTimeout t s else s)"
    using a by (simp add: timersOk_clearTimeout split: option.splits)
  then show ?thesis
    by (simp add: clearTypingTimer_def Let_def timersOk_def timerEntryOk_def [abs_def])
qed

lemma timersOk_setTyping:
  "timersOk (setTypingState c b s) = timersOk s"
  by (rule timersOk_cong) (simp_all add: setTypingState_def)

lemma timersOk_typing_timeout:
  assumes "timersOk s"
  shows "timersOk ((snd (setTimeout (ClearTyping c) ms s))
                     \<lparr>typingTimeouts := tt\<rparr>)"
proof -
  let ?n = "nextHandle s"
  have lt: "fst p < ?n" if "p \<in> set (pending s)" for p
    using that assms by (simp add: timersOk_def list_all_iff timerEntryOk_def)
  then have fresh: "?n \<notin> fst ` set (pending s)" by fastforce
  have "h \<noteq> ?n" if "deletionTimers s i = Some h" for i h
    using that assms by (auto simp: timersOk_def)
  with assms fresh show ?thesis
    by (auto simp: setTimeout_def timersOk_def timerEntryOk_def list_all_iff less_Suc_eq)
qed

lemma timersOk_runCallback:
  "timersOk s \<Longrightarrow> timersOk (runCallback f s)"
proof (cases f)
  case (DeleteMessage c i)
  assume a: "timersOk s"
  have "timersOk (s\<lparr>activeMessages :=
            (activeMessages s)(c \<mapsto> filter (\<lambda>m. msg_id m \<noteq> i) (messagesOf s c))\<rparr>)"
    using a by (simp add: timersOk_def timerEntryOk_def [abs_def])
  then show ?thesis using DeleteMessage by (simp add: timersOk_clearTimer)
next
  case (ClearTyping c)
  assume "timersOk s"
  then show ?thesis using ClearTyping
    by (simp add: timersOk_typing_clear timersOk_setTyping)
qed

lemma timersOk_fire:
  "timersOk s \<Longrightarrow> timersOk (fireTimeout h s)"
  by (simp add: fireTimeout_def timersOk_runCallback timersOk_clearTimeout split: option.splits)

lemma applyPresence_fields [simp]:
  "pending (applyPresence uid b s) = pending s"
  "nextHandle (applyPresence uid b s) = nextHandle s"
  "deletionTimers (applyPresence uid b s) = deletionTimers s"
  "activeMessages (applyPresence uid b s) = activeMessages s"
  "unreadCounts (applyPresence uid b s) = unreadCounts s"
  "userId (applyPresence uid b s) = userId s"
  by (simp_all add: applyPresence_def)

lemma timersOk_fold_presence:
  "timersOk (fold (\<lambda>uid st. if P uid then applyPresence uid b st else st) ids s) = timersOk s"
proof (induction ids arbitrary: s)
  case Nil
  then show ?case by simp
next
  case (Cons a ids)
  have "timersOk (applyPresence a b s) = timersOk s"
    by (rule timersOk_cong) simp_all
  with Cons show ?case by simp
qed

lemma timersOk_fold_schedule:
  "timersOk s \<Longrightarrow> timersOk (fold (scheduleMessageDeletion now) ms s)"
  by (induction ms arbitrary: s) (simp_all add: timersOk_schedule)

lemma timersOk_inbound:
  assumes "timersOk s"
  shows "timersOk (handleWSData now ev s)"
proof (cases ev)
  case (OnlineUsers ids)
  with assms show ?thesis by (simp add: timersOk_fold_presence)
next
  case (UserStatus uid b)
  have "timersOk (applyPresence uid b s) = timersOk s"
    by (rule timersOk_cong) simp_all
  with assms UserStatus show ?thesis by simp
next
  case (ProfileUpdated uid name)
  with assms show ?thesis
    by (simp add: Let_def timersOk_def timerEntryOk_def [abs_def])
next
  case (Typing cid sender receiver isTyping)
  have t: "timersOk (setTypingState cid isTyping (clearTypingTimer cid s))"
    using assms by (simp add: timersOk_setTyping timersOk_typing_clear)
  show ?thesis
  proof (cases "isTyping \<and> cid \<noteq> 0 \<and> Some receiver = userId s \<and> Some sender \<noteq> userId s")
    case True
    obtain x1 x2 where x: "setTimeout (ClearTyping cid) 3000
            (setTypingState cid isTyping (clearTypingTimer cid s)) = (x1, x2)"
      by (cases "setTimeout (ClearTyping cid) 3000
            (setTypingState cid isTyping (clearTypingTimer cid s))")
    from timersOk_typing_timeout [OF t, where c = cid and ms = 3000
        and tt = "(typingTimeouts x2)(cid \<mapsto> x1)"] x
    have "timersOk (x2\<lparr>typingTimeouts := (typingTimeouts x2)(cid \<mapsto> x1)\<rparr>)" by simp
    with True x Typing show ?thesis by (simp add: Let_def)
  next
    case False
    with t assms Typing show ?thesis by (auto simp: Let_def)
  qed
next
  case (NewMessage m)
  have a: "timersOk (appendIfNew m s)"
    using assms timersOk_cong [of "appendIfNew m s" s] by simp
  have "timersOk (bumpUnread m (bumpChatToTopAndUpdateLast now c lm st)) = timersOk st" for c lm st
    by (rule timersOk_cong) simp_all
  with timersOk_schedule [OF a] NewMessage assms show ?thesis by simp
qed

lemma timersOk_send:
  assumes "timersOk s"
  shows "timersOk (storesAfter s (sendMessage ck body kind req f up s))"
proof -
  have o: "timersOk (sendOptimistic ck ch body kind m s)" for ch m
  proof -
    have "timersOk (s\<lparr>activeMessages := am\<rparr>)" for am
      using assms by (simp add: timersOk_def timerEntryOk_def [abs_def])
    from timersOk_schedule [OF this] show ?thesis
      using timersOk_cong [of "bumpChatToTopAndUpdateLast now c lm st" st for now c lm st]
      by (simp add: sendOptimistic_def Let_def)
  qed
  have "timersOk (sendSettle t uid ch body kind secs f up st) = timersOk st" for t uid ch secs st
    by (rule timersOk_cong) (simp_all add: sendSettle_def Let_def split: option.splits)
  with o assms storesAfter_send [of s ck body kind req f up] show ?thesis
    by auto
qed

lemma timersOk_load:
  assumes "timersOk s"
  shows "timersOk (loadActiveMessages now c r s)"
proof -
  have "timersOk (s\<lparr>activeMessages := am\<rparr>)" for am
    using assms by (simp add: timersOk_def timerEntryOk_def [abs_def])
  then show ?thesis
    by (simp add: loadActiveMessages_def Let_def timersOk_fold_schedule split: option.splits)
qed

lemma timersOk_select:
  assumes "timersOk s"
  shows "timersOk (selectChat now chat r s)"
proof -
  have "timersOk (s\<lparr>selectedChat := x\<rparr>)" for x
    using assms by (simp add: timersOk_def timerEntryOk_def [abs_def])
  moreover have "timersOk (s\<lparr>selectedChat := x, unreadCounts := y, persistentContacts := z\<rparr>)"
    for x y z
    using assms by (simp add: timersOk_def timerEntryOk_def [abs_def])
  ultimately show ?thesis
    by (simp add: selectChat_def Let_def timersOk_load split: option.splits)
qed

lemma timersOk_delete:
  "timersOk s \<Longrightarrow> timersOk (deleteChat now cid s)"
  by (simp add: deleteChat_def timersOk_def timerEntryOk_def [abs_def])

lemma timersOk_refresh:
  "timersOk s \<Longrightarrow> timersOk (fetchContacts sp r s)"
  by (simp add: fetchContacts_def Let_def timersOk_def timerEntryOk_def [abs_def]
      split: option.splits)

lemma timersOk_connection:
  "timersOk s \<Longrightarrow> timersOk (onConnectionChange b s)"
  by (simp add: onConnectionChange_def setAllOffline_def timersOk_def timerEntryOk_def [abs_def])

lemma timersOk_perform:
  "timersOk s \<Longrightarrow> timersOk (perform a s)"
  by (cases a)
     (simp_all add: timersOk_inbound timersOk_send timersOk_select timersOk_delete
       timersOk_refresh timersOk_fire timersOk_connection)

lemma timersOk_run:
  "timersOk s \<Longrightarrow> timersOk (fold perform acts s)"
  by (induction acts arbitrary: s) (simp_all add: timersOk_perform)


subsection \<open>A timeout that fires\<close>

lemma map_of_pending:
  "timersOk s \<Longrightarrow> map_of (pending s) h = Some t \<longleftrightarrow> (h, t) \<in> set (pending s)"
  by (simp add: timersOk_def)

lemma fire_expiry:
  assumes "map_of (pending s) h = Some t" "cb t = DeleteMessage c i"
  shows "fireTimeout h s =
           clearTimer i ((clearTimeout h s)
             \<lparr>activeMessages :=
                (activeMessages s)(c \<mapsto> filter (\<lambda>m. msg_id m \<noteq> i) (messagesOf s c))\<rparr>)"
  using assms by (simp add: fireTimeout_def messagesOf_def)

lemma messagesOf_clearTimer [simp]: "messagesOf (clearTimer i s) k = messagesOf s k"
  by (simp add: messagesOf_def)

lemma messagesOf_clearTimeout [simp]: "messagesOf (clearTimeout h s) k = messagesOf s k"
  by (simp add: messagesOf_def)

lemma fire_messages:
  assumes "map_of (pending s) h = Some t" "cb t = DeleteMessage c i"
  shows "messagesOf (fireTimeout h s) k =
           (if k = c then filter (\<lambda>m. msg_id m \<noteq> i) (messagesOf s c) else messagesOf s k)"
  by (simp add: fire_expiry [OF assms] messagesOf_def)

lemma set_pending_fire: "set (pending (fireTimeout h s)) \<subseteq> set (pending s) - {p. fst p = h}"
proof (cases "map_of (pending s) h")
  case None
  then have "h \<notin> fst ` set (pending s)" by (simp add: map_of_eq_None_iff)
  with None show ?thesis by (auto simp: fireTimeout_def)
next
  case (Some t)
  show ?thesis
  proof (cases "cb t")
    case (DeleteMessage c i)
    with Some set_pending_clearTimer [of i] show ?thesis
      by (fastforce simp: fireTimeout_def pending_clearTimer split: option.splits if_splits)
  next
    case (ClearTyping c)
    with Some show ?thesis
      by (auto simp: fireTimeout_def clearTypingTimer_def setTypingState_def Let_def
          split: option.splits if_splits)
  qed
qed

lemma fire_gone:
  "map_of (pending (fireTimeout h s)) h = None"
  using set_pending_fire [of h s] by (force simp: map_of_eq_None_iff)

lemma fire_twice: "fireTimeout h (fireTimeout h s) = fireTimeout h s"
  using fire_gone [of h s] by (simp add: fireTimeout_def [of h "fireTimeout h s"])

lemma fire_forgets:
  assumes "timersOk s" "map_of (pending s) h = Some t" "cb t = DeleteMessage c i"
  shows "expiryTimersFor (fireTimeout h s) i = []"
proof -
  let ?u = "(clearTimeout h s)
             \<lparr>activeMessages :=
                (activeMessages s)(c \<mapsto> filter (\<lambda>m. msg_id m \<noteq> i) (messagesOf s c))\<rparr>"
  have "timersOk ?u = timersOk (clearTimeout h s)"
    by (rule timersOk_cong) simp_all
  with assms(1) have "timersOk ?u" by (simp add: timersOk_clearTimeout)
  from no_timer_after_clearTimer [OF this, of i] show ?thesis
    by (simp add: fire_expiry [OF assms(2,3)])
qed



subsection \<open>Timers set by a load\<close>

lemma expiryTimersFor_clearTimer_other:
  assumes "timersOk s" "i \<noteq> j"
  shows "expiryTimersFor (clearTimer j s) i = expiryTimersFor s i"
proof (cases "deletionTimers s j")
  case None
  then show ?thesis by (simp add: expiryTimersFor_def pending_clearTimer)
next
  case (Some t)
  with assms(1) have "\<forall>p \<in> set (pending s). fst p = t \<longrightarrow> isExpiryTimerFor j p"
    by (auto simp: timersOk_def list_all_iff)
  moreover have "\<not> (deletesId i f \<and> deletesId j f)" for f
    using assms(2) by (cases f) auto
  ultimately have "\<forall>p \<in> set (pending s). isExpiryTimerFor i p \<longrightarrow> fst p \<noteq> t"
    by (auto simp: isExpiryTimerFor_def)
  then have "filter (isExpiryTimerFor i) (filter (\<lambda>p. fst p \<noteq> t) (pending s))
               = filter (isExpiryTimerFor i) (pending s)"
    by (auto intro: filter_cong)
  with Some show ?thesis by (simp add: expiryTimersFor_def pending_clearTimer)
qed

lemma expiryTimersFor_schedule_other:
  assumes "timersOk s" "i \<noteq> msg_id m"
  shows "expiryTimersFor (scheduleMessageDeletion now m s) i = expiryTimersFor s i"
proof (cases "toMs (js_or (expiresAt m) (expires_at m)) = 0")
  case True
  then show ?thesis by (simp add: schedule_invalid)
next
  case False
  from expiryTimersFor_clearTimer_other [OF assms] assms(2) show ?thesis
    by (simp add: schedule_valid [OF False] expiryTimersFor_def isExpiryTimerFor_def)
qed

lemma armed_schedule:
  assumes "timersOk s"
    and "armed s i \<or> (i = msg_id m \<and> toMs (js_or (expiresAt m) (expires_at m)) \<noteq> 0)"
  shows "armed (scheduleMessageDeletion now m s) i"
proof (cases "i = msg_id m")
  case True
  show ?thesis
  proof (cases "toMs (js_or (expiresAt m) (expires_at m)) = 0")
    case z: True
    with assms show ?thesis by (simp add: schedule_invalid)
  next
    case False
    from expiryTimersFor_schedule [OF assms(1) False, of now] True show ?thesis
      by (simp add: armed_def)
  qed
next
  case False
  with assms expiryTimersFor_schedule_other [OF assms(1) False, of now] show ?thesis
    by (simp add: armed_def)
qed

lemma armed_fold:
  "timersOk s \<Longrightarrow>
   armed s i \<or> (\<exists>m \<in> set ms. i = msg_id m \<and> toMs (js_or (expiresAt m) (expires_at m)) \<noteq> 0) \<Longrightarrow>
   armed (fold (scheduleMessageDeletion now) ms s) i"
proof (induction ms arbitrary: s)
  case Nil
  then show ?case by simp
next
  case (Cons a ms)
  have ok: "timersOk (scheduleMessageDeletion now a s)"
    by (rule timersOk_schedule [OF Cons.prems(1)])
  from Cons.prems(2)
  have "armed (scheduleMessageDeletion now a s) i \<or>
        (\<exists>m \<in> set ms. i = msg_id m \<and> toMs (js_or (expiresAt m) (expires_at m)) \<noteq> 0)"
    using armed_schedule [OF Cons.prems(1), of i a now] by auto
  from Cons.IH [OF ok this] show ?case by simp
qed

subsection \<open>One expiry timer for each message\<close>


lemma fire_count:
  assumes "map_of (pending s) h = Some t" "cb t = DeleteMessage c j"
  shows "length (messagesOf s c) =
           length (messagesOf (fireTimeout h s) c)
             + length (filter (\<lambda>x. msg_id x = j) (messagesOf s c))"
  using sum_length_filter_compl [of "\<lambda>x. msg_id x \<noteq> j" "messagesOf s c"]
  by (simp add: fire_messages [OF assms])

lemma fire_other_chats:
  assumes "map_of (pending s) h = Some t" "cb t = DeleteMessage c j" "k \<noteq> c"
  shows "activeMessages (fireTimeout h s) k = activeMessages s k"
  using assms(3) by (simp add: fire_expiry [OF assms(1,2)])

text \<open>
  Claim C6, as amended. In every state the engine reaches from its first render, a
  message id has at most one live expiry timer. \<open>scheduleMessageDeletion\<close> for a message
  with a valid expiry leaves exactly one for its id, the new one, \<open>max(expiry - now, 200)\<close>
  ms ahead. When a live expiry timer fires it removes from its chat's sequence every entry
  with its message id (as many as there are: one when the message is there once, none when
  it is gone already), leaves the other chats alone and forgets the timer: no timer for
  the id is live afterwards, the handle is gone from the runtime's table, and firing the
  handle again does nothing.
\<close>

theorem one_expiry_timer_per_message:
  assumes r: "s = fold perform acts (initialState uid sock)"
  shows "length (expiryTimersFor s i) \<le> 1 \<and>
    (toMs (js_or (expiresAt m) (expires_at m)) \<noteq> 0 \<longrightarrow>
       expiryTimersFor (scheduleMessageDeletion now m s) (msg_id m) =
         [(nextHandle s,
           \<lparr>delay = max (toMs (js_or (expiresAt m) (expires_at m)) - now) 200,
            cb = DeleteMessage (chatId m) (msg_id m)\<rparr>)]) \<and>
    (map_of (pending s) h = Some t \<and> cb t = DeleteMessage c j \<longrightarrow>
       messagesOf (fireTimeout h s) c = filter (\<lambda>x. msg_id x \<noteq> j) (messagesOf s c) \<and>
       length (messagesOf s c) =
         length (messagesOf (fireTimeout h s) c)
           + length (filter (\<lambda>x. msg_id x = j) (messagesOf s c)) \<and>
       (\<forall>k. k \<noteq> c \<longrightarrow> activeMessages (fireTimeout h s) k = activeMessages s k) \<and>
       expiryTimersFor (fireTimeout h s) j = [] \<and>
       map_of (pending (fireTimeout h s)) h = None \<and>
       fireTimeout h (fireTimeout h s) = fireTimeout h s)"
proof -
  have ok: "timersOk s"
    unfolding r by (rule timersOk_run [OF timersOk_initial])
  have a: "length (expiryTimersFor s i) \<le> 1"
    by (rule at_most_one_timer [OF ok])
  have b: "toMs (js_or (expiresAt m) (expires_at m)) \<noteq> 0 \<longrightarrow>
       expiryTimersFor (scheduleMessageDeletion now m s) (msg_id m) =
         [(nextHandle s,
           \<lparr>delay = max (toMs (js_or (expiresAt m) (expires_at m)) - now) 200,
            cb = DeleteMessage (chatId m) (msg_id m)\<rparr>)]"
    using expiryTimersFor_schedule [OF ok] by blast
  have c: "messagesOf (fireTimeout h s) c = filter (\<lambda>x. msg_id x \<noteq> j) (messagesOf s c) \<and>
       length (messagesOf s c) =
         length (messagesOf (fireTimeout h s) c)
           + length (filter (\<lambda>x. msg_id x = j) (messagesOf s c)) \<and>
       (\<forall>k. k \<noteq> c \<longrightarrow> activeMessages (fireTimeout h s) k = activeMessages s k) \<and>
       expiryTimersFor (fireTimeout h s) j = [] \<and>
       map_of (pending (fireTimeout h s)) h = None \<and>
       fireTimeout h (fireTimeout h s) = fireTimeout h s"
    if f: "map_of (pending s) h = Some t" "cb t = DeleteMessage c j"
    using fire_messages [OF f, of c] fire_count [OF f] fire_other_chats [OF f]
      fire_forgets [OF ok f] fire_gone [of h s] fire_twice [of h s]
    by simp
  from a b c show ?thesis by blast
qed

lemma afterInbound_state:
  "pending afterInbound = [(1, \<lparr>delay = 8500, cb = DeleteMessage 10 77\<rparr>)]"
  "messagesOf afterInbound 10 = [sampleMessage]"
  by (simp_all add: afterInbound_def sampleMessage_def initialState_def beforeCutoff_def
      appendIfNew_def messagesOf_def Let_def schedule_valid js_or_def toMs_def
      pending_clearTimer bumpUnread_def)

theorem one_expiry_timer_per_message_witness:
  "afterInbound = fold perform [Inbound 500 (NewMessage sampleMessage)] (initialState (Some 1) True) \<and>
   toMs (js_or (expiresAt sampleMessage) (expires_at sampleMessage)) = 9000 \<and>
   map_of (pending afterInbound) 1 = Some \<lparr>delay = 8500, cb = DeleteMessage 10 77\<rparr> \<and>
   messagesOf afterInbound 10 = [sampleMessage] \<and>
   messagesOf (fireTimeout 1 afterInbound) 10 = [] \<and>
   expiryTimersFor (fireTimeout 1 afterInbound) 77 = []"
proof -
  have e: "toMs (js_or (expiresAt sampleMessage) (expires_at sampleMessage)) = 9000"
    by (simp add: sampleMessage_def js_or_def toMs_def)
  have p: "map_of (pending afterInbound) 1 = Some \<lparr>delay = 8500, cb = DeleteMessage 10 77\<rparr>"
    "cb \<lparr>delay = 8500, cb = DeleteMessage 10 77\<rparr> = DeleteMessage 10 77"
    by (simp_all add: afterInbound_state)
  from one_expiry_timer_per_message [OF afterInbound_def, of 77 sampleMessage 500 1
      "\<lparr>delay = 8500, cb = DeleteMessage 10 77\<rparr>" 10 77] p
  have "messagesOf (fireTimeout 1 afterInbound) 10
          = filter (\<lambda>x. msg_id x \<noteq> 77) (messagesOf afterInbound 10)"
    "expiryTimersFor (fireTimeout 1 afterInbound) 77 = []"
    by blast+
  moreover have "msg_id sampleMessage = 77" by (simp add: sampleMessage_def)
  ultimately show ?thesis using e p(1) afterInbound_def
    by (simp add: afterInbound_state(2))
qed

lemma beforeFailedUpload_state:
  fixes b
  defines "b \<equiv> fold perform
                 [Refresh True (Some [chatA, chatB]), Select 100 (Some chatB) (Some [])]
                 (initialState (Some 1) True)"
  shows "selectedChat b = Some chatB" "userId b = Some 1" "socketSend b"
    "pending b = []" "nextHandle b = 1" "deletionTimers b = Map.empty"
    "messagesOf b 11 = []"
  unfolding b_def
  by (simp_all add: initialState_def fetchContacts_def Let_def sortBy_def compareContacts_def
      sortTime_def js_or_def chatA_def chatB_def stampUnread_def setOnline_def presenceFor_def
      selectChat_def truthy_id_def loadActiveMessages_def filterByCutoff_def messagesOf_def)

lemma afterFailedUpload_state:
  "pending afterFailedUpload = [(1, \<lparr>delay = 30000, cb = DeleteMessage 11 7000\<rparr>)]"
  "messagesOf afterFailedUpload 11 = []"
proof -
  define b where "b = fold perform
                 [Refresh True (Some [chatA, chatB]), Select 100 (Some chatB) (Some [])]
                 (initialState (Some 1) True)"
  let ?p = "\<lparr>msg_id = 7000, chatId = 11, senderId = 1, receiverId = 3,
             content = ''blob:1'', messageType = ''image'',
             fileName = Some ''cat.png'', fileSize = Some 2048,
             createdAt = Iso 7000, expiresAt = Iso 37000, expires_at = Undef,
             destructTimer = Some 30\<rparr>"
  note bs = beforeFailedUpload_state [folded b_def]
  have one: "(1::int) \<noteq> 0" by simp
  have "optimisticMessage (clockAt 7000) 1 chatB [] ''image'' (destructSeconds (Num 30))
          (Some sampleFile) = Inr ?p"
    by (simp add: optimisticMessage_def toISOString_def validDate_def maxDateMs_def clockAt_def
        destructSeconds_def chatB_def bob_def sampleFile_def)
  from sendMessage_ready [OF bs(1,2) one bs(3) this]
  have "storesAfter b (sendMessage (clockAt 7000) [] ''image'' (Num 30) (Some sampleFile) None b)
          = sendSettle 7000 1 chatB [] ''image'' 30 (Some sampleFile) None
              (sendOptimistic (clockAt 7000) chatB [] ''image'' ?p b)"
    by (simp add: storesAfter_def clockAt_def destructSeconds_def)
  moreover have "afterFailedUpload =
          storesAfter b (sendMessage (clockAt 7000) [] ''image'' (Num 30) (Some sampleFile) None b)"
    by (simp add: afterFailedUpload_def failedUploadRun_def b_def)
  ultimately have a: "afterFailedUpload =
        sendSettle 7000 1 chatB [] ''image'' 30 (Some sampleFile) None
          (sendOptimistic (clockAt 7000) chatB [] ''image'' ?p b)"
    by simp
  show "pending afterFailedUpload = [(1, \<lparr>delay = 30000, cb = DeleteMessage 11 7000\<rparr>)]"
    unfolding a
    by (simp add: sendSettle_def sendOptimistic_def Let_def schedule_valid js_or_def toMs_def
        pending_clearTimer clockAt_def bs)
  have "chat_id chatB = 11" by (simp add: chatB_def)
  with messagesOf_sendOptimistic [of "clockAt 7000" chatB "[]" "''image''" ?p b]
  show "messagesOf afterFailedUpload 11 = []"
    unfolding a by (simp add: sendSettle_fail bs)
qed

text \<open>
  Claim C6 as stated fails on "removes exactly one entry": after the failed upload the
  placeholder is gone from chat 11 but its timer is still live; it fires and removes
  nothing.
\<close>

theorem expiry_timer_removes_nothing_counterexample:
  "map_of (pending afterFailedUpload) 1 = Some \<lparr>delay = 30000, cb = DeleteMessage 11 7000\<rparr> \<and>
   messagesOf afterFailedUpload 11 = [] \<and>
   messagesOf (fireTimeout 1 afterFailedUpload) 11 = []"
proof -
  have p: "map_of (pending afterFailedUpload) 1
             = Some \<lparr>delay = 30000, cb = DeleteMessage 11 7000\<rparr>"
    by (simp add: afterFailedUpload_state)
  from fire_messages [OF p, of 11 7000 11] afterFailedUpload_state(2) p show ?thesis by simp
qed

subsection \<open>A message without an expiry\<close>





subsection \<open>What a load leaves visible\<close>


lemma activeMessages_load:
  "activeMessages (loadActiveMessages now cid (Some msgs) s) =
     (activeMessages s)(cid \<mapsto> filterByCutoff cid msgs (cutoffs s cid))"
  by (simp add: loadActiveMessages_def Let_def)

lemma armed_load:
  assumes "timersOk s" "m \<in> set (filterByCutoff cid msgs (cutoffs s cid))"
    "toMs (js_or (expiresAt m) (expires_at m)) \<noteq> 0"
  shows "armed (loadActiveMessages now cid (Some msgs) s) (msg_id m)"
proof -
  let ?u = "s\<lparr>activeMessages :=
               (activeMessages s)(cid \<mapsto> filterByCutoff cid msgs (cutoffs s cid))\<rparr>"
  have "timersOk ?u = timersOk s" by (rule timersOk_cong) simp_all
  with assms(1) have "timersOk ?u" by simp
  from armed_fold [OF this, of "msg_id m" "filterByCutoff cid msgs (cutoffs s cid)" now] assms(2,3)
  show ?thesis by (auto simp: loadActiveMessages_def Let_def)
qed

text \<open>
  Claim C1, as amended. After \<open>loadActiveMessages\<close> with a response, the chat's sequence
  is the response without the messages created at or before the chat's cutoff, when the
  cutoff is set and parses to a time other than 0, and the whole response otherwise.
  Expiry is not looked at: a message that has expired stays. In a state where the timer
  invariant holds (every state the engine reaches), each message that stays and has a
  valid expiry has exactly one live timer after the load, at least 200 ms ahead.
\<close>

theorem loadActiveMessages_visible:
  "(truthy (cutoffs s cid) \<and> toMs (cutoffs s cid) \<noteq> 0 \<longrightarrow>
      messagesOf (loadActiveMessages now cid (Some msgs) s) cid
        = filter (\<lambda>m. toMs (cutoffs s cid) < toMs (createdAt m)) msgs) \<and>
   (\<not> truthy (cutoffs s cid) \<or> toMs (cutoffs s cid) = 0 \<longrightarrow>
      messagesOf (loadActiveMessages now cid (Some msgs) s) cid = msgs) \<and>
   (timersOk s \<longrightarrow>
      (\<forall>m \<in> set (messagesOf (loadActiveMessages now cid (Some msgs) s) cid).
         toMs (js_or (expiresAt m) (expires_at m)) \<noteq> 0 \<longrightarrow>
           armed (loadActiveMessages now cid (Some msgs) s) (msg_id m)))"
proof -
  have m: "messagesOf (loadActiveMessages now cid (Some msgs) s) cid
             = filterByCutoff cid msgs (cutoffs s cid)"
    by (simp add: messagesOf_def activeMessages_load)
  then show ?thesis
    using armed_load [of s _ cid msgs now]
    by (auto simp: filterByCutoff_def)
qed

lemma cutState_facts:
  "cutoffs cutState 10 = Iso 500" "timersOk cutState" "userId cutState = Some 1"
  "selectedChat cutState = Some chatB" "messagesOf cutState 10 = []"
  by (simp_all add: cutState_def deleteChat_def sampleState_def initialState_def truthy_id_def
      timersOk_def messagesOf_def chatB_def)

theorem loadActiveMessages_visible_witness:
  "truthy (cutoffs cutState 10) \<and> toMs (cutoffs cutState 10) = 500 \<and> timersOk cutState \<and>
   toMs (createdAt oldMessage) = 400 \<and> toMs (createdAt sampleMessage) = 1000 \<and>
   messagesOf (loadActiveMessages 2000 10 (Some [oldMessage, sampleMessage]) cutState) 10
     = [sampleMessage] \<and>
   toMs (js_or (expiresAt sampleMessage) (expires_at sampleMessage)) = 9000 \<and>
   armed (loadActiveMessages 2000 10 (Some [oldMessage, sampleMessage]) cutState) 77"
proof -
  let ?s = "loadActiveMessages 2000 10 (Some [oldMessage, sampleMessage]) cutState"
  have c: "truthy (cutoffs cutState 10)" "toMs (cutoffs cutState 10) = 500"
    by (simp_all add: cutState_facts toMs_def)
  have t: "toMs (createdAt oldMessage) = 400" "toMs (createdAt sampleMessage) = 1000"
    "toMs (js_or (expiresAt sampleMessage) (expires_at sampleMessage)) = 9000"
    "msg_id sampleMessage = 77"
    by (simp_all add: oldMessage_def sampleMessage_def toMs_def js_or_def)
  note v = loadActiveMessages_visible [of cutState 10 2000 "[oldMessage, sampleMessage]"]
  from v c t have m: "messagesOf ?s 10 = [sampleMessage]" by simp
  from v cutState_facts(2) have "\<forall>m \<in> set (messagesOf ?s 10).
         toMs (js_or (expiresAt m) (expires_at m)) \<noteq> 0 \<longrightarrow> armed ?s (msg_id m)"
    by blast
  with m t have "armed ?s 77" by simp
  with c t m cutState_facts(2) show ?thesis by simp
qed

text \<open>
  Claim C1 as stated fails: the server returns a message that expired at 9000, the load
  runs at 20000, and the message is in the visible sequence.
\<close>

theorem loadActiveMessages_expired_counterexample:
  "toMs (expiresAt sampleMessage) < 20000 \<and>
   messagesOf (loadActiveMessages 20000 10 (Some [sampleMessage]) sampleState) 10
     = [sampleMessage]"
  by (simp add: messagesOf_def activeMessages_load filterByCutoff_def sampleState_def
      initialState_def sampleMessage_def toMs_def)

subsection \<open>An inbound message\<close>




lemma messagesOf_bumpUnread [simp]: "messagesOf (bumpUnread m s) k = messagesOf s k"
  by (simp add: messagesOf_def)








subsection \<open>Unread counts are never negative\<close>

text \<open>
  The counts are written by the max-merge with a positive server counter, by deleting an
  entry and by adding one, so in every state the engine reaches from its first render no
  count is negative: the condition on the previous count in the merge theorem holds there.
\<close>

lemma unreadNonneg_cong:
  "unreadCounts t = unreadCounts s \<Longrightarrow> unreadNonneg t = unreadNonneg s"
  by (simp add: unreadNonneg_def unreadOf_def)

lemma unreadNonneg_delete:
  "unreadNonneg s \<Longrightarrow> unreadCounts t = (unreadCounts s)(c := None) \<Longrightarrow> unreadNonneg t"
  by (simp add: unreadNonneg_def unreadOf_def)

lemma unreadCounts_fold_presence [simp]:
  "unreadCounts (fold (\<lambda>uid st. if P uid then applyPresence uid b st else st) ids s)
     = unreadCounts s"
  by (induction ids arbitrary: s) simp_all

lemma unreadNonneg_inbound:
  assumes "unreadNonneg s"
  shows "unreadNonneg (handleWSData now ev s)"
proof (cases ev)
  case (OnlineUsers ids)
  with assms show ?thesis by (simp add: unreadNonneg_def unreadOf_def)
next
  case (UserStatus uid b)
  with assms show ?thesis by (simp add: unreadNonneg_def unreadOf_def)
next
  case (ProfileUpdated uid name)
  with assms show ?thesis by (simp add: unreadNonneg_def unreadOf_def Let_def)
next
  case (Typing cid sender receiver isTyping)
  with assms show ?thesis
    by (simp add: unreadNonneg_def unreadOf_def Let_def setTimeout_def setTypingState_def
        clearTypingTimer_def split: prod.splits option.splits)
next
  case (NewMessage m)
  from assms have "0 \<le> unreadOf s (chatId m)" by (simp add: unreadNonneg_def)
  with assms NewMessage show ?thesis
    by (auto simp: unreadNonneg_def unreadOf_def bumpUnread_def split: option.splits)
qed

lemma unreadCounts_send [simp]:
  "unreadCounts (storesAfter s (sendMessage ck body kind req f up s)) = unreadCounts s"
  using storesAfter_send [of s ck body kind req f up]
  by (auto simp: sendSettle_def sendOptimistic_def Let_def split: option.splits)

lemma unreadCounts_fire [simp]:
  "unreadCounts (fireTimeout h s) = unreadCounts s"
proof (cases "map_of (pending s) h")
  case None
  then show ?thesis by (simp add: fireTimeout_def)
next
  case (Some t)
  then show ?thesis
    by (cases "cb t")
       (simp_all add: fireTimeout_def clearTypingTimer_def setTypingState_def Let_def
         split: option.splits)
qed

lemma unreadNonneg_refresh:
  assumes "unreadNonneg s"
  shows "unreadNonneg (fetchContacts sp r s)"
proof -
  have "0 \<le> unreadOf (fetchContacts sp r s) k" for k
  proof -
    from assms have "0 \<le> unreadOf s k" by (simp add: unreadNonneg_def)
    moreover have "unreadOf s k \<le> unreadOf (fetchContacts sp r s) k"
      by (cases r)
         (auto simp: unreadOf_def fetchContacts_def Let_def mergeUnread_def orZero_def
           split: option.splits)
    ultimately show ?thesis by simp
  qed
  then show ?thesis by (simp add: unreadNonneg_def)
qed

lemma unreadNonneg_perform:
  assumes "unreadNonneg s"
  shows "unreadNonneg (perform a s)"
proof (cases a)
  case (Inbound now ev)
  with assms show ?thesis by (simp add: unreadNonneg_inbound)
next
  case (Send ck body kind req f up)
  with assms show ?thesis by (simp add: unreadNonneg_def unreadOf_def)
next
  case (Select now chat r)
  with assms show ?thesis
    by (cases chat) (auto simp: unreadNonneg_def unreadOf_def selectChat_def Let_def)
next
  case (Delete now cid)
  with assms show ?thesis
    by (auto simp: unreadNonneg_def unreadOf_def deleteChat_def)
next
  case (Refresh sp r)
  with assms show ?thesis by (simp add: unreadNonneg_refresh)
next
  case (Fire h)
  with assms show ?thesis by (simp add: unreadNonneg_def unreadOf_def)
next
  case (Connection b)
  with assms show ?thesis
    by (simp add: unreadNonneg_def unreadOf_def onConnectionChange_def setAllOffline_def)
qed

lemma unreadNonneg_run:
  "0 \<le> unreadOf (fold perform acts (initialState uid sock)) k"
proof -
  have "unreadNonneg s \<Longrightarrow> unreadNonneg (fold perform acts s)" for s
    by (induction acts arbitrary: s) (simp_all add: unreadNonneg_perform)
  moreover have "unreadNonneg (initialState uid sock)"
    by (simp add: unreadNonneg_def unreadOf_def initialState_def)
  ultimately show ?thesis by (simp add: unreadNonneg_def)
qed

end
